theory Spec2Isabelle
  imports Main "HOL-Library.AList"
begin

section \<open>Python values\<close>

text \<open>
  The task store keeps what \<^verbatim>\<open>json.load\<close> hands it and never checks a type, so
  the fields of a task hold arbitrary Python values. The values modelled are the ones a
  JSON document produces: \<^verbatim>\<open>None\<close>, booleans, integers, strings, lists and
  dictionaries with string keys. A dictionary is an association list in insertion order;
  a parsed dictionary has distinct keys, and every function below reads the first
  binding of a key. Floating-point numbers are not modelled. A character is a code point
  below 256. The interpreter limits the number of digits converted between
  \<^verbatim>\<open>int\<close> and \<^verbatim>\<open>str\<close>, to 4300 unless it is configured otherwise. The limit is
  modelled where a string is read as an integer, in \<open>py_int\<close>. It is not modelled
  where an integer is written, by \<^verbatim>\<open>str\<close> or by the JSON encoder, or where the JSON
  decoder reads one: integers of more than 4300 digits are taken not to occur as ids, as
  arguments or in documents. The one such integer that the program can make itself is the
  id that follows a key of 4300 nines; the statements below that say that
  \<^verbatim>\<open>add_task\<close> returns exclude it by a hypothesis.
\<close>

datatype pyval =
    PyNone
  | PyBool bool
  | PyInt int
  | PyStr string
  | PyList "pyval list"
  | PyDict "(string \<times> pyval) list"

datatype error = JSONDecodeError | AttributeError | KeyError | TypeError | ValueError

subsection \<open>\<^verbatim>\<open>str\<close> and \<^verbatim>\<open>repr\<close>\<close>

definition digit_char :: "nat \<Rightarrow> char" where
  "digit_char d = ''0123456789abcdef'' ! d"

function dec_nat :: "nat \<Rightarrow> string" where
  "dec_nat n = (if n < 10 then [digit_char n] else dec_nat (n div 10) @ [digit_char (n mod 10)])"
  by pat_completeness auto
termination
  by (relation "measure (\<lambda>n. n)") auto

declare dec_nat.simps [simp del]

text \<open>\<^verbatim>\<open>str(n)\<close> for an integer \<open>n\<close>.\<close>

definition str_int :: "int \<Rightarrow> string" where
  "str_int n = (if n < 0 then CHR ''-'' # dec_nat (nat (- n)) else dec_nat (nat n))"

definition hex2 :: "nat \<Rightarrow> string" where
  "hex2 n = [digit_char (n div 16), digit_char (n mod 16)]"

text \<open>
  \<^verbatim>\<open>repr\<close> of a string: single quotes unless the string has a single quote and no
  double quote; the quote and the backslash are escaped, tab, newline and carriage return
  are written \<^verbatim>\<open>\t \n \r\<close>, and every other unprintable character as \<^verbatim>\<open>\xhh\<close>.
\<close>

definition escape_char :: "char \<Rightarrow> char \<Rightarrow> string" where
  "escape_char q c =
     (let n = (of_char c :: nat)
      in if c = q \<or> c = CHR 0x5C then [CHR 0x5C, c]
         else if n = 9 then [CHR 0x5C, CHR ''t'']
         else if n = 10 then [CHR 0x5C, CHR ''n'']
         else if n = 13 then [CHR 0x5C, CHR ''r'']
         else if n < 32 \<or> n = 127 then [CHR 0x5C, CHR ''x''] @ hex2 n
         else if n < 127 then [c]
         else if n \<le> 160 \<or> n = 173 then [CHR 0x5C, CHR ''x''] @ hex2 n
         else [c])"

definition repr_str :: "string \<Rightarrow> string" where
  "repr_str s =
     (let q = (if CHR 0x27 \<in> set s \<and> CHR 0x22 \<notin> set s then CHR 0x22 else CHR 0x27)
      in q # concat (map (escape_char q) s) @ [q])"

fun join :: "string \<Rightarrow> string list \<Rightarrow> string" where
  "join sep [] = []"
| "join sep [x] = x"
| "join sep (x # y # ys) = x @ sep @ join sep (y # ys)"

fun py_repr :: "pyval \<Rightarrow> string" where
  "py_repr PyNone = ''None''"
| "py_repr (PyBool b) = (if b then ''True'' else ''False'')"
| "py_repr (PyInt n) = str_int n"
| "py_repr (PyStr s) = repr_str s"
| "py_repr (PyList xs) = ''['' @ join '', '' (map py_repr xs) @ '']''"
| "py_repr (PyDict kvs) =
     ''{'' @ join '', '' (map (\<lambda>(k, v). repr_str k @ '': '' @ py_repr v) kvs) @ ''}''"

definition py_str :: "pyval \<Rightarrow> string" where
  "py_str v = (case v of PyStr s \<Rightarrow> s | _ \<Rightarrow> py_repr v)"

subsection \<open>\<^verbatim>\<open>int\<close> of a string\<close>

text \<open>
  \<^verbatim>\<open>int(s)\<close> skips white space at both ends, reads an optional sign and then decimal
  digits, where one underscore may stand between two digits. Anything else raises
  \<^verbatim>\<open>ValueError\<close>, which is the value \<open>None\<close> here; so does a number of more than
  \<open>int_max_str_digits\<close> digits, where the underscores are not counted and leading
  zeros are. The white space that \<^verbatim>\<open>int\<close> skips is the tab, the line feed, the
  vertical tab, the form feed, the carriage return and the space, and of the characters
  above 127 the next-line character and the no-break space; the separators 28 to 31,
  white space for \<^verbatim>\<open>str.isspace\<close>, are not skipped.
\<close>

definition isspace :: "char \<Rightarrow> bool" where
  "isspace c =
     (let n = (of_char c :: nat)
      in (9 \<le> n \<and> n \<le> 13) \<or> n = 32 \<or> n = 133 \<or> n = 160)"

definition int_max_str_digits :: nat where
  "int_max_str_digits = 4300"

definition strip :: "string \<Rightarrow> string" where
  "strip s = rev (dropWhile isspace (rev (dropWhile isspace s)))"

definition digit_val :: "char \<Rightarrow> nat option" where
  "digit_val c =
     (let n = (of_char c :: nat) in if 48 \<le> n \<and> n \<le> 57 then Some (n - 48) else None)"

fun scan_digits :: "nat \<Rightarrow> string \<Rightarrow> nat option" where
  "scan_digits acc [] = Some acc"
| "scan_digits acc [c] =
     (case digit_val c of None \<Rightarrow> None | Some v \<Rightarrow> Some (10 * acc + v))"
| "scan_digits acc (c # d # ds) =
     (if c = CHR ''_''
      then (case digit_val d of None \<Rightarrow> None | Some v \<Rightarrow> scan_digits (10 * acc + v) ds)
      else (case digit_val c of None \<Rightarrow> None
            | Some v \<Rightarrow> scan_digits (10 * acc + v) (d # ds)))"

definition parse_digits :: "string \<Rightarrow> nat option" where
  "parse_digits s =
     (case s of [] \<Rightarrow> None
      | c # cs \<Rightarrow>
          (case digit_val c of None \<Rightarrow> None
           | Some v \<Rightarrow>
               if int_max_str_digits < length (filter (\<lambda>x. x \<noteq> CHR ''_'') s) then None
               else scan_digits v cs))"

definition py_int :: "string \<Rightarrow> int option" where
  "py_int s =
     (case strip s of [] \<Rightarrow> None
      | c # cs \<Rightarrow>
          if c = CHR ''-'' then map_option (\<lambda>n. - int n) (parse_digits cs)
          else if c = CHR ''+'' then map_option int (parse_digits cs)
          else map_option int (parse_digits (c # cs)))"

subsection \<open>Truth value, equality and order\<close>

fun py_truthy :: "pyval \<Rightarrow> bool" where
  "py_truthy PyNone = False"
| "py_truthy (PyBool b) = b"
| "py_truthy (PyInt n) = (n \<noteq> 0)"
| "py_truthy (PyStr s) = (s \<noteq> [])"
| "py_truthy (PyList xs) = (xs \<noteq> [])"
| "py_truthy (PyDict kvs) = (kvs \<noteq> [])"

text \<open>A boolean is an integer in Python: \<^verbatim>\<open>True == 1\<close>.\<close>

fun as_number :: "pyval \<Rightarrow> int option" where
  "as_number (PyBool b) = Some (if b then 1 else 0)"
| "as_number (PyInt n) = Some n"
| "as_number _ = None"

text \<open>
  \<^verbatim>\<open>a == b\<close>. Two dictionaries are equal when they have the same number of keys and
  every key of the first is bound in the second to an equal value.
\<close>

fun py_eq :: "pyval \<Rightarrow> pyval \<Rightarrow> bool"
  and py_eq_list :: "pyval list \<Rightarrow> pyval list \<Rightarrow> bool"
  and py_eq_items :: "(string \<times> pyval) list \<Rightarrow> (string \<times> pyval) list \<Rightarrow> bool"
  and py_eq_item :: "string \<Rightarrow> pyval \<Rightarrow> (string \<times> pyval) list \<Rightarrow> bool" where
  "py_eq PyNone b = (b = PyNone)"
| "py_eq (PyBool x) b = (as_number b = Some (if x then 1 else 0))"
| "py_eq (PyInt x) b = (as_number b = Some x)"
| "py_eq (PyStr x) b = (b = PyStr x)"
| "py_eq (PyList xs) b = (case b of PyList ys \<Rightarrow> py_eq_list xs ys | _ \<Rightarrow> False)"
| "py_eq (PyDict xs) b =
     (case b of PyDict ys \<Rightarrow> length xs = length ys \<and> py_eq_items xs ys | _ \<Rightarrow> False)"
| "py_eq_list [] ys = (ys = [])"
| "py_eq_list (x # xs) ys =
     (case ys of [] \<Rightarrow> False | y # ys' \<Rightarrow> py_eq x y \<and> py_eq_list xs ys')"
| "py_eq_items [] ys = True"
| "py_eq_items ((k, v) # xs) ys = (py_eq_item k v ys \<and> py_eq_items xs ys)"
| "py_eq_item k v [] = False"
| "py_eq_item k v ((k', w) # ys) = (if k = k' then py_eq v w else py_eq_item k v ys)"

fun str_lt :: "string \<Rightarrow> string \<Rightarrow> bool" where
  "str_lt [] [] = False"
| "str_lt [] (y # ys) = True"
| "str_lt (x # xs) [] = False"
| "str_lt (x # xs) (y # ys) = (if x = y then str_lt xs ys else (of_char x :: nat) < of_char y)"

text \<open>
  \<^verbatim>\<open>a < b\<close>, with \<open>None\<close> for \<^verbatim>\<open>TypeError\<close>: numbers compare with numbers, strings
  with strings by code point, lists with lists at the first position where they differ;
  nothing else is ordered.
\<close>

fun py_lt :: "pyval \<Rightarrow> pyval \<Rightarrow> bool option"
  and py_lt_list :: "pyval list \<Rightarrow> pyval list \<Rightarrow> bool option" where
  "py_lt (PyBool x) b = map_option (\<lambda>n. (if x then 1 else 0) < n) (as_number b)"
| "py_lt (PyInt x) b = map_option (\<lambda>n. x < n) (as_number b)"
| "py_lt (PyStr x) b = (case b of PyStr y \<Rightarrow> Some (str_lt x y) | _ \<Rightarrow> None)"
| "py_lt (PyList xs) b = (case b of PyList ys \<Rightarrow> py_lt_list xs ys | _ \<Rightarrow> None)"
| "py_lt PyNone b = None"
| "py_lt (PyDict xs) b = None"
| "py_lt_list [] ys = Some (ys \<noteq> [])"
| "py_lt_list (x # xs) ys =
     (case ys of [] \<Rightarrow> Some False
      | y # ys' \<Rightarrow> if py_eq x y then py_lt_list xs ys' else py_lt x y)"

subsection \<open>\<^verbatim>\<open>sorted\<close>\<close>

text \<open>
  \<^verbatim>\<open>sorted(xs, key=f)\<close> is stable and uses \<^verbatim>\<open><\<close> on the keys only. It raises
  \<^verbatim>\<open>TypeError\<close> when a comparison it makes does. With two or more elements whose keys
  are not lists it compares every element with another one, so it raises exactly when
  two keys are not comparable; that is what \<open>all_comparable\<close> tests. (A list key can
  be comparable with one list and not with another; for such keys the model raises where
  the library's sort might not reach the offending pair.)
\<close>

fun all_comparable :: "pyval list \<Rightarrow> bool" where
  "all_comparable [] = True"
| "all_comparable (x # xs) = (list_all (\<lambda>y. py_lt x y \<noteq> None) xs \<and> all_comparable xs)"

fun insert_sorted :: "('a \<Rightarrow> pyval) \<Rightarrow> 'a \<Rightarrow> 'a list \<Rightarrow> 'a list" where
  "insert_sorted f x [] = [x]"
| "insert_sorted f x (y # ys) =
     (if py_lt (f y) (f x) = Some True then y # insert_sorted f x ys else x # y # ys)"

definition py_sorted :: "('a \<Rightarrow> pyval) \<Rightarrow> 'a list \<Rightarrow> error + 'a list" where
  "py_sorted f xs =
     (if all_comparable (map f xs) then Inr (foldr (insert_sorted f) xs []) else Inl TypeError)"

subsection \<open>\<^verbatim>\<open>datetime.now().isoformat()\<close>\<close>

record datetime =
  year :: nat
  month :: nat
  day :: nat
  hour :: nat
  minute :: nat
  second :: nat
  microsecond :: nat

definition zfill :: "nat \<Rightarrow> string \<Rightarrow> string" where
  "zfill w s = replicate (w - length s) CHR ''0'' @ s"

definition isoformat :: "datetime \<Rightarrow> string" where
  "isoformat d =
     zfill 4 (dec_nat (year d)) @ ''-'' @ zfill 2 (dec_nat (month d)) @ ''-''
     @ zfill 2 (dec_nat (day d)) @ ''T'' @ zfill 2 (dec_nat (hour d)) @ '':''
     @ zfill 2 (dec_nat (minute d)) @ '':'' @ zfill 2 (dec_nat (second d))
     @ (if microsecond d = 0 then [] else ''.'' @ zfill 6 (dec_nat (microsecond d)))"

section \<open>testfile.py: the task\<close>

datatype TaskStatus = TODO | IN_PROGRESS | DONE

text \<open>The \<^verbatim>\<open>value\<close> of a member of the enumeration.\<close>

fun status_value :: "TaskStatus \<Rightarrow> string" where
  "status_value TODO = ''todo''"
| "status_value IN_PROGRESS = ''in-progress''"
| "status_value DONE = ''done''"

text \<open>
  A status as the program passes it around: a member of \<open>TaskStatus\<close>, or any other
  Python value.
\<close>

datatype pystatus = Member TaskStatus | Plain pyval

text \<open>
  The call \<^verbatim>\<open>TaskStatus(x)\<close>: a member is returned as it is, the value of a member
  gives that member, everything else raises \<^verbatim>\<open>ValueError\<close>.
\<close>

fun TaskStatus_call :: "pystatus \<Rightarrow> error + TaskStatus" where
  "TaskStatus_call (Member m) = Inr m"
| "TaskStatus_call (Plain (PyStr s)) =
     (if s = ''todo'' then Inr TODO
      else if s = ''in-progress'' then Inr IN_PROGRESS
      else if s = ''done'' then Inr DONE
      else Inl ValueError)"
| "TaskStatus_call (Plain v) = Inl ValueError"

text \<open>\<^verbatim>\<open>TaskStatus(status) if isinstance(status, str) else status\<close>\<close>

fun status_of_arg :: "pystatus \<Rightarrow> error + pystatus" where
  "status_of_arg (Plain (PyStr s)) =
     (case TaskStatus_call (Plain (PyStr s)) of Inl e \<Rightarrow> Inl e | Inr m \<Rightarrow> Inr (Member m))"
| "status_of_arg st = Inr st"

text \<open>
  \<^verbatim>\<open>a == b\<close> on statuses: members of the enumeration are equal to themselves only,
  and to no plain value.
\<close>

fun status_eq :: "pystatus \<Rightarrow> pystatus \<Rightarrow> bool" where
  "status_eq (Member a) (Member b) = (a = b)"
| "status_eq (Plain a) (Plain b) = py_eq a b"
| "status_eq _ _ = False"

record Task =
  id_of :: pyval
  description :: pyval
  status :: pystatus
  created_at :: pyval

text \<open>
  \<^verbatim>\<open>Task.__init__\<close>; \<open>now\<close> is what the clock reads if the constructor consults
  it. The default arguments are \<open>Member TODO\<close> and \<open>PyNone\<close>.
\<close>

definition Task_init :: "datetime \<Rightarrow> pyval \<Rightarrow> pyval \<Rightarrow> pystatus \<Rightarrow> pyval \<Rightarrow> error + Task" where
  "Task_init now task_id desc st created =
     (case status_of_arg st of
        Inl e \<Rightarrow> Inl e
      | Inr st' \<Rightarrow>
          Inr \<lparr>id_of = task_id, description = desc, status = st',
               created_at = (if py_truthy created then created else PyStr (isoformat now))\<rparr>)"

definition update_description :: "pyval \<Rightarrow> Task \<Rightarrow> Task" where
  "update_description new_description task = task\<lparr>description := new_description\<rparr>"

definition Task_mark_in_progress :: "Task \<Rightarrow> Task" where
  "Task_mark_in_progress task = task\<lparr>status := Member IN_PROGRESS\<rparr>"

definition Task_mark_done :: "Task \<Rightarrow> Task" where
  "Task_mark_done task = task\<lparr>status := Member DONE\<rparr>"

text \<open>
  \<^verbatim>\<open>Task.to_dict\<close>. Reading \<^verbatim>\<open>.value\<close> of a status that is not a member raises
  \<^verbatim>\<open>AttributeError\<close>.
\<close>

definition to_dict :: "Task \<Rightarrow> error + (string \<times> pyval) list" where
  "to_dict task =
     (case status task of
        Member m \<Rightarrow>
          Inr [(''id'', id_of task), (''description'', description task),
               (''status'', PyStr (status_value m)), (''created_at'', created_at task)]
      | Plain v \<Rightarrow> Inl AttributeError)"

section \<open>testfile.py: the store\<close>

text \<open>
  A file either does not parse as JSON or holds a document; the file system maps a name
  to the file of that name, if there is one. Input and output errors other than a missing
  file are not modelled.
\<close>

datatype backing_file = Unparseable | Document pyval

type_synonym filesystem = "string \<Rightarrow> backing_file option"

record TaskTracker =
  filename :: string
  tasks :: "(string \<times> Task) list"

text \<open>\<^verbatim>\<open>task_data["id"]\<close>: subscription by a string.\<close>

fun subscript :: "pyval \<Rightarrow> string \<Rightarrow> error + pyval" where
  "subscript (PyDict d) k = (case map_of d k of None \<Rightarrow> Inl KeyError | Some v \<Rightarrow> Inr v)"
| "subscript v k = Inl TypeError"

text \<open>The construction of one task in the loop of \<^verbatim>\<open>load_tasks\<close>.\<close>

definition load_entry :: "datetime \<Rightarrow> pyval \<Rightarrow> error + Task" where
  "load_entry now task_data =
     (case subscript task_data ''id'' of Inl e \<Rightarrow> Inl e | Inr i \<Rightarrow>
      case subscript task_data ''description'' of Inl e \<Rightarrow> Inl e | Inr d \<Rightarrow>
      case subscript task_data ''status'' of Inl e \<Rightarrow> Inl e | Inr s \<Rightarrow>
      case subscript task_data ''created_at'' of Inl e \<Rightarrow> Inl e | Inr c \<Rightarrow>
      Task_init now i d (Plain s) c)"

text \<open>
  The loop of \<^verbatim>\<open>load_tasks\<close>. An exception leaves the tasks stored so far in place.
  \<open>clock i\<close> is the reading of the clock while the \<open>i\<close>-th entry is built.
\<close>

fun load_entries ::
  "(nat \<Rightarrow> datetime) \<Rightarrow> nat \<Rightarrow> (string \<times> pyval) list \<Rightarrow> (string \<times> Task) list
   \<Rightarrow> error option \<times> (string \<times> Task) list" where
  "load_entries clock i [] ts = (None, ts)"
| "load_entries clock i ((task_id, task_data) # rest) ts =
     (case load_entry (clock i) task_data of
        Inl e \<Rightarrow> (Some e, ts)
      | Inr task \<Rightarrow>
          load_entries clock (Suc i) rest (AList.update (py_str (id_of task)) task ts))"

definition load_tasks ::
  "(nat \<Rightarrow> datetime) \<Rightarrow> TaskTracker \<Rightarrow> filesystem \<Rightarrow> (error + unit) \<times> TaskTracker" where
  "load_tasks clock t fs =
     (case fs (filename t) of
        None \<Rightarrow> (Inr (), t)
      | Some Unparseable \<Rightarrow> (Inl JSONDecodeError, t)
      | Some (Document (PyDict data)) \<Rightarrow>
          (case load_entries clock 0 data (tasks t) of
             (None, ts) \<Rightarrow> (Inr (), t\<lparr>tasks := ts\<rparr>)
           | (Some e, ts) \<Rightarrow> (Inl e, t\<lparr>tasks := ts\<rparr>))
      | Some (Document v) \<Rightarrow> (Inl AttributeError, t))"

text \<open>\<^verbatim>\<open>TaskTracker.__init__\<close>: an exception in \<^verbatim>\<open>load_tasks\<close> leaves no object.\<close>

definition TaskTracker_init ::
  "string \<Rightarrow> (nat \<Rightarrow> datetime) \<Rightarrow> filesystem \<Rightarrow> error + TaskTracker" where
  "TaskTracker_init name clock fs =
     (case load_tasks clock \<lparr>filename = name, tasks = []\<rparr> fs of
        (Inl e, t) \<Rightarrow> Inl e
      | (Inr u, t) \<Rightarrow> Inr t)"

text \<open>The dictionary comprehension of \<^verbatim>\<open>save_tasks\<close>; the keys are strings already.\<close>

fun dump_data :: "(string \<times> Task) list \<Rightarrow> error + (string \<times> pyval) list" where
  "dump_data [] = Inr []"
| "dump_data ((task_id, task) # rest) =
     (case to_dict task of
        Inl e \<Rightarrow> Inl e
      | Inr d \<Rightarrow>
          (case dump_data rest of Inl e \<Rightarrow> Inl e | Inr ds \<Rightarrow> Inr ((task_id, PyDict d) # ds)))"

definition save_tasks :: "TaskTracker \<Rightarrow> filesystem \<Rightarrow> (error + unit) \<times> filesystem" where
  "save_tasks t fs =
     (case dump_data (tasks t) of
        Inl e \<Rightarrow> (Inl e, fs)
      | Inr data \<Rightarrow> (Inr (), fs(filename t \<mapsto> Document (PyDict data))))"

definition get_next_id :: "TaskTracker \<Rightarrow> error + int" where
  "get_next_id t =
     (if tasks t = [] then Inr 1
      else (case those (map (\<lambda>(task_id, task). py_int task_id) (tasks t)) of
              None \<Rightarrow> Inl ValueError
            | Some ns \<Rightarrow> Inr (Max (set ns) + 1)))"

text \<open>\<^verbatim>\<open>self.save_tasks()\<close> followed by \<^verbatim>\<open>return r\<close>.\<close>

definition save_and_return ::
  "'a \<Rightarrow> TaskTracker \<Rightarrow> filesystem \<Rightarrow> (error + 'a) \<times> TaskTracker \<times> filesystem" where
  "save_and_return r t fs =
     (case save_tasks t fs of
        (Inl e, fs') \<Rightarrow> (Inl e, t, fs')
      | (Inr u, fs') \<Rightarrow> (Inr r, t, fs'))"

definition add_task ::
  "datetime \<Rightarrow> pyval \<Rightarrow> TaskTracker \<Rightarrow> filesystem \<Rightarrow> (error + Task) \<times> TaskTracker \<times> filesystem" where
  "add_task now desc t fs =
     (case get_next_id t of
        Inl e \<Rightarrow> (Inl e, t, fs)
      | Inr task_id \<Rightarrow>
          (case Task_init now (PyInt task_id) desc (Member TODO) PyNone of
             Inl e \<Rightarrow> (Inl e, t, fs)
           | Inr task \<Rightarrow>
               save_and_return task
                 (t\<lparr>tasks := AList.update (py_str (PyInt task_id)) task (tasks t)\<rparr>) fs))"

definition get_task :: "pyval \<Rightarrow> TaskTracker \<Rightarrow> Task option" where
  "get_task task_id t = map_of (tasks t) (py_str task_id)"

text \<open>
  The three methods that change the task they find. The task is an object held by the
  dictionary, so changing it is rebinding its key.
\<close>

definition update_task ::
  "pyval \<Rightarrow> pyval \<Rightarrow> TaskTracker \<Rightarrow> filesystem \<Rightarrow> (error + bool) \<times> TaskTracker \<times> filesystem" where
  "update_task task_id new_description t fs =
     (case get_task task_id t of
        Some task \<Rightarrow>
          save_and_return True
            (t\<lparr>tasks := AList.update (py_str task_id)
                          (update_description new_description task) (tasks t)\<rparr>) fs
      | None \<Rightarrow> (Inr False, t, fs))"

definition delete_task ::
  "pyval \<Rightarrow> TaskTracker \<Rightarrow> filesystem \<Rightarrow> (error + bool) \<times> TaskTracker \<times> filesystem" where
  "delete_task task_id t fs =
     (if py_str task_id \<in> set (map fst (tasks t))
      then save_and_return True (t\<lparr>tasks := AList.delete (py_str task_id) (tasks t)\<rparr>) fs
      else (Inr False, t, fs))"

definition mark_in_progress ::
  "pyval \<Rightarrow> TaskTracker \<Rightarrow> filesystem \<Rightarrow> (error + bool) \<times> TaskTracker \<times> filesystem" where
  "mark_in_progress task_id t fs =
     (case get_task task_id t of
        Some task \<Rightarrow>
          save_and_return True
            (t\<lparr>tasks := AList.update (py_str task_id) (Task_mark_in_progress task) (tasks t)\<rparr>) fs
      | None \<Rightarrow> (Inr False, t, fs))"

definition mark_done ::
  "pyval \<Rightarrow> TaskTracker \<Rightarrow> filesystem \<Rightarrow> (error + bool) \<times> TaskTracker \<times> filesystem" where
  "mark_done task_id t fs =
     (case get_task task_id t of
        Some task \<Rightarrow>
          save_and_return True
            (t\<lparr>tasks := AList.update (py_str task_id) (Task_mark_done task) (tasks t)\<rparr>) fs
      | None \<Rightarrow> (Inr False, t, fs))"

definition get_all_tasks :: "TaskTracker \<Rightarrow> error + Task list" where
  "get_all_tasks t = py_sorted id_of (map snd (tasks t))"

definition get_tasks_by_status :: "pystatus \<Rightarrow> TaskTracker \<Rightarrow> error + Task list" where
  "get_tasks_by_status st t =
     (case status_of_arg st of
        Inl e \<Rightarrow> Inl e
      | Inr status_enum \<Rightarrow>
          py_sorted id_of (filter (\<lambda>task. status_eq (status task) status_enum) (map snd (tasks t))))"

section \<open>The store as a transition system\<close>

text \<open>
  One call of a method of the store, with its arguments, and what the call gives back:
  the value returned or the exception raised. A call starts from the store object and
  the file system and leaves both, changed or not; an exception keeps the changes made
  before it.
\<close>

datatype command =
    Load "nat \<Rightarrow> datetime"
  | Add datetime pyval
  | Get pyval
  | Update pyval pyval
  | Delete pyval
  | MarkInProgress pyval
  | MarkDone pyval
  | ListAll
  | ListByStatus pystatus

datatype reply =
    Raised error
  | Returned
  | Found "Task option"
  | Flag bool
  | Added Task
  | Listing "Task list"

definition reply_of :: "('a \<Rightarrow> reply) \<Rightarrow> error + 'a \<Rightarrow> reply" where
  "reply_of f r = (case r of Inl e \<Rightarrow> Raised e | Inr x \<Rightarrow> f x)"

fun perform ::
  "command \<Rightarrow> TaskTracker \<times> filesystem \<Rightarrow> reply \<times> TaskTracker \<times> filesystem" where
  "perform (Load clock) (t, fs) =
     (case load_tasks clock t fs of (r, t') \<Rightarrow> (reply_of (\<lambda>u. Returned) r, t', fs))"
| "perform (Add now desc) (t, fs) =
     (case add_task now desc t fs of (r, t', fs') \<Rightarrow> (reply_of Added r, t', fs'))"
| "perform (Get task_id) (t, fs) = (Found (get_task task_id t), t, fs)"
| "perform (Update task_id desc) (t, fs) =
     (case update_task task_id desc t fs of (r, t', fs') \<Rightarrow> (reply_of Flag r, t', fs'))"
| "perform (Delete task_id) (t, fs) =
     (case delete_task task_id t fs of (r, t', fs') \<Rightarrow> (reply_of Flag r, t', fs'))"
| "perform (MarkInProgress task_id) (t, fs) =
     (case mark_in_progress task_id t fs of (r, t', fs') \<Rightarrow> (reply_of Flag r, t', fs'))"
| "perform (MarkDone task_id) (t, fs) =
     (case mark_done task_id t fs of (r, t', fs') \<Rightarrow> (reply_of Flag r, t', fs'))"
| "perform ListAll (t, fs) = (reply_of Listing (get_all_tasks t), t, fs)"
| "perform (ListByStatus st) (t, fs) = (reply_of Listing (get_tasks_by_status st t), t, fs)"

fun run ::
  "command list \<Rightarrow> TaskTracker \<times> filesystem \<Rightarrow> reply list \<times> TaskTracker \<times> filesystem" where
  "run [] s = ([], s)"
| "run (c # cs) s =
     (case perform c s of (r, s') \<Rightarrow> (case run cs s' of (rs, s'') \<Rightarrow> (r # rs, s'')))"

fun is_read :: "command \<Rightarrow> bool" where
  "is_read (Get task_id) = True"
| "is_read ListAll = True"
| "is_read (ListByStatus st) = True"
| "is_read c = False"

fun is_mutation :: "command \<Rightarrow> bool" where
  "is_mutation (Add now desc) = True"
| "is_mutation (Update task_id desc) = True"
| "is_mutation (Delete task_id) = True"
| "is_mutation (MarkInProgress task_id) = True"
| "is_mutation (MarkDone task_id) = True"
| "is_mutation c = False"

text \<open>A mutating call succeeds when it returns the new task, or \<^verbatim>\<open>True\<close>.\<close>

fun succeeded :: "reply \<Rightarrow> bool" where
  "succeeded (Added task) = True"
| "succeeded (Flag b) = b"
| "succeeded r = False"

text \<open>
  A call of \<^verbatim>\<open>add_task\<close>; the tasks that a run of calls has added, in the order of
  the calls; and the order of two tasks by their ids, when both ids are integers.
\<close>

fun is_add :: "command \<Rightarrow> bool" where
  "is_add (Add now desc) = True"
| "is_add c = False"

fun added :: "reply list \<Rightarrow> Task list" where
  "added [] = []"
| "added (Added task # rs) = task # added rs"
| "added (r # rs) = added rs"

definition id_less :: "Task \<Rightarrow> Task \<Rightarrow> bool" where
  "id_less a b = (case (id_of a, id_of b) of (PyInt m, PyInt n) \<Rightarrow> m < n | _ \<Rightarrow> False)"

text \<open>
  The states a store can be in: \<^verbatim>\<open>__init__\<close> starts with no task, every call leads
  from a state to a state, and between two calls the files may be changed from outside.
\<close>

inductive reach :: "TaskTracker \<times> filesystem \<Rightarrow> bool" where
  fresh: "reach (\<lparr>filename = name, tasks = []\<rparr>, fs)"
| call: "reach s \<Longrightarrow> reach (snd (perform c s))"
| edit: "reach (t, fs) \<Longrightarrow> reach (t, fs')"

text \<open>The backing file holds the serialized form of all the tasks of the store.\<close>

definition persisted :: "TaskTracker \<Rightarrow> filesystem \<Rightarrow> bool" where
  "persisted t fs =
     (case dump_data (tasks t) of
        Inl e \<Rightarrow> False
      | Inr data \<Rightarrow> fs (filename t) = Some (Document (PyDict data)))"

fun is_member :: "pystatus \<Rightarrow> bool" where
  "is_member (Member m) = True"
| "is_member (Plain v) = False"

fun is_int :: "pyval \<Rightarrow> bool" where
  "is_int (PyInt n) = True"
| "is_int v = False"

fun is_string :: "pyval \<Rightarrow> bool" where
  "is_string (PyStr s) = True"
| "is_string v = False"

fun is_str :: "pystatus \<Rightarrow> bool" where
  "is_str (Plain (PyStr s)) = True"
| "is_str st = False"

text \<open>
  What holds of every store: the keys are distinct, each task is held under the string
  form of its id, its creation time is a true value, and its status is not a string.
\<close>

definition held_ok :: "string \<times> Task \<Rightarrow> bool" where
  "held_ok p =
     (fst p = py_str (id_of (snd p)) \<and> py_truthy (created_at (snd p))
      \<and> \<not> is_str (status (snd p)))"

definition store_inv :: "TaskTracker \<Rightarrow> bool" where
  "store_inv t = (distinct (map fst (tasks t)) \<and> list_all held_ok (tasks t))"

text \<open>Every task of the list has a member of \<open>TaskStatus\<close> as its status.\<close>

definition members :: "(string \<times> Task) list \<Rightarrow> bool" where
  "members ts = list_all (\<lambda>(k, task). is_member (status task)) ts"

text \<open>Every task of the list has an integer as its id.\<close>

definition int_ids :: "(string \<times> Task) list \<Rightarrow> bool" where
  "int_ids ts = list_all (\<lambda>(k, task). is_int (id_of task)) ts"


text \<open>Every key of the list reads as an integer.\<close>

definition numeric_keys :: "(string \<times> Task) list \<Rightarrow> bool" where
  "numeric_keys ts = list_all (\<lambda>(k, task). py_int k \<noteq> None) ts"

text \<open>Every key of the store reads, as \<^verbatim>\<open>get_next_id\<close> reads it, as a number below \<open>n\<close>.\<close>

definition below :: "TaskTracker \<Rightarrow> int \<Rightarrow> bool" where
  "below t n = list_all (\<lambda>(k, task). case py_int k of None \<Rightarrow> False | Some m \<Rightarrow> m < n) (tasks t)"

section \<open>TaskTracker.py\<close>

text \<open>
  The second source file holds an earlier form of the task and of the store, with the
  constructor, the serialization and the three methods \<^verbatim>\<open>load_tasks\<close>,
  \<^verbatim>\<open>save_task\<close> and \<^verbatim>\<open>next_task_id\<close>. Its names carry the suffix \<open>_tt\<close> where
  they would clash with the names above.
\<close>

record Task_tt =
  id_tt :: pyval
  taskDesc :: pyval
  createdOn :: pyval
  status_tt :: TaskStatus

definition Task_tt_init ::
  "datetime \<Rightarrow> pyval \<Rightarrow> pyval \<Rightarrow> pystatus \<Rightarrow> pyval \<Rightarrow> error + Task_tt" where
  "Task_tt_init now task_id desc st created =
     (case TaskStatus_call st of
        Inl e \<Rightarrow> Inl e
      | Inr m \<Rightarrow>
          Inr \<lparr>id_tt = task_id, taskDesc = desc,
               createdOn = (if py_truthy created then created else PyStr (isoformat now)),
               status_tt = m\<rparr>)"

definition markTD :: "Task_tt \<Rightarrow> Task_tt" where
  "markTD task = task\<lparr>status_tt := TODO\<rparr>"

definition markIP :: "Task_tt \<Rightarrow> Task_tt" where
  "markIP task = task\<lparr>status_tt := IN_PROGRESS\<rparr>"

definition markD :: "Task_tt \<Rightarrow> Task_tt" where
  "markD task = task\<lparr>status_tt := DONE\<rparr>"

definition updateDesc :: "pyval \<Rightarrow> Task_tt \<Rightarrow> Task_tt" where
  "updateDesc new_desc task = task\<lparr>taskDesc := new_desc\<rparr>"

definition task_dict :: "Task_tt \<Rightarrow> (string \<times> pyval) list" where
  "task_dict task =
     [(''id'', id_tt task), (''description'', taskDesc task),
      (''status'', PyStr (status_value (status_tt task))), (''created'', createdOn task)]"

record TaskTracker_tt =
  filename_tt :: string
  tasks_tt :: "(string \<times> Task_tt) list"

definition load_entry_tt :: "datetime \<Rightarrow> pyval \<Rightarrow> error + Task_tt" where
  "load_entry_tt now task_data =
     (case subscript task_data ''id'' of Inl e \<Rightarrow> Inl e | Inr i \<Rightarrow>
      case subscript task_data ''description'' of Inl e \<Rightarrow> Inl e | Inr d \<Rightarrow>
      case subscript task_data ''status'' of Inl e \<Rightarrow> Inl e | Inr s \<Rightarrow>
      case subscript task_data ''created'' of Inl e \<Rightarrow> Inl e | Inr c \<Rightarrow>
      Task_tt_init now i d (Plain s) c)"

fun load_entries_tt ::
  "(nat \<Rightarrow> datetime) \<Rightarrow> nat \<Rightarrow> (string \<times> pyval) list \<Rightarrow> (string \<times> Task_tt) list
   \<Rightarrow> error option \<times> (string \<times> Task_tt) list" where
  "load_entries_tt clock i [] ts = (None, ts)"
| "load_entries_tt clock i ((task_id, task_data) # rest) ts =
     (case load_entry_tt (clock i) task_data of
        Inl e \<Rightarrow> (Some e, ts)
      | Inr task \<Rightarrow>
          load_entries_tt clock (Suc i) rest (AList.update (py_str (id_tt task)) task ts))"

text \<open>
  \<^verbatim>\<open>os.path.exist(name)\<close>: the module \<^verbatim>\<open>os.path\<close> has \<^verbatim>\<open>exists\<close> and no
  \<^verbatim>\<open>exist\<close>, so the attribute lookup raises before any file is looked at.
\<close>

definition os_path_exist :: "string \<Rightarrow> filesystem \<Rightarrow> error + bool" where
  "os_path_exist name fs = Inl AttributeError"

definition load_tasks_tt ::
  "(nat \<Rightarrow> datetime) \<Rightarrow> TaskTracker_tt \<Rightarrow> filesystem \<Rightarrow> (error + unit) \<times> TaskTracker_tt" where
  "load_tasks_tt clock t fs =
     (case os_path_exist (filename_tt t) fs of
        Inl e \<Rightarrow> (Inl e, t)
      | Inr False \<Rightarrow> (Inr (), t)
      | Inr True \<Rightarrow>
          (case fs (filename_tt t) of
             Some (Document (PyDict data)) \<Rightarrow>
               (case load_entries_tt clock 0 data (tasks_tt t) of
                  (None, ts) \<Rightarrow> (Inr (), t\<lparr>tasks_tt := ts\<rparr>)
                | (Some e, ts) \<Rightarrow> (Inl e, t\<lparr>tasks_tt := ts\<rparr>))
           | Some (Document v) \<Rightarrow> (Inl AttributeError, t)
           | _ \<Rightarrow> (Inl JSONDecodeError, t)))"

text \<open>
  \<^verbatim>\<open>json.dumps(data, f, indent=2)\<close>: \<^verbatim>\<open>dumps\<close> takes one positional argument, so
  the call raises \<^verbatim>\<open>TypeError\<close>. By then \<^verbatim>\<open>open(self.filename, 'w')\<close> has emptied
  the file, and an empty file does not parse.
\<close>

definition json_dumps :: "pyval \<Rightarrow> string \<Rightarrow> error + string" where
  "json_dumps data f = Inl TypeError"

definition save_task :: "TaskTracker_tt \<Rightarrow> filesystem \<Rightarrow> (error + unit) \<times> filesystem" where
  "save_task t fs =
     (let data = map (\<lambda>(task_id, task). (task_id, PyDict (task_dict task))) (tasks_tt t);
          fs' = fs(filename_tt t \<mapsto> Unparseable)
      in case json_dumps (PyDict data) (filename_tt t) of
           Inl e \<Rightarrow> (Inl e, fs')
         | Inr text \<Rightarrow> (Inr (), fs'))"

definition next_task_id :: "TaskTracker_tt \<Rightarrow> error + int" where
  "next_task_id t =
     (if tasks_tt t = [] then Inr 1
      else (case those (map (\<lambda>(task_id, task). py_int task_id) (tasks_tt t)) of
              None \<Rightarrow> Inl ValueError
            | Some ns \<Rightarrow> Inr (Max (set ns) + 1)))"

section \<open>Notions used in the proofs\<close>

text \<open>A string of decimal digits, and the number it denotes after the digits read so far.\<close>

definition digits :: "string \<Rightarrow> bool" where
  "digits s = (\<forall>c \<in> set s. \<exists>d<10. c = digit_char d)"

definition digits_value :: "nat \<Rightarrow> string \<Rightarrow> nat" where
  "digits_value acc s = foldl (\<lambda>a c. 10 * a + the (digit_val c)) acc s"

text \<open>The record that \<^verbatim>\<open>to_dict\<close> gives for a task whose status is a member.\<close>

definition record_of :: "Task \<Rightarrow> pyval" where
  "record_of task =
     PyDict [(''id'', id_of task), (''description'', description task),
             (''status'', PyStr (case status task of Member m \<Rightarrow> status_value m | Plain v \<Rightarrow> [])),
             (''created_at'', created_at task)]"

text \<open>The task that \<^verbatim>\<open>add_task\<close> builds for the id \<open>n\<close>.\<close>

definition new_task :: "datetime \<Rightarrow> int \<Rightarrow> pyval \<Rightarrow> Task" where
  "new_task now n d =
     \<lparr>id_of = PyInt n, description = d, status = Member TODO,
      created_at = PyStr (isoformat now)\<rparr>"

text \<open>The id of a task as a number, when it is an integer.\<close>

definition int_id :: "Task \<Rightarrow> int" where
  "int_id task = (case id_of task of PyInt n \<Rightarrow> n | _ \<Rightarrow> 0)"

section \<open>Example data\<close>

text \<open>A reading of the clock, and a store without tasks where no file exists.\<close>

definition morning :: datetime where
  "morning = \<lparr>year = 2025, month = 12, day = 1, hour = 9, minute = 30, second = 0, microsecond = 0\<rparr>"

definition no_tasks :: "TaskTracker \<times> filesystem" where
  "no_tasks = (\<lparr>filename = ''tasks.json'', tasks = []\<rparr>, Map.empty)"

text \<open>
  A file whose only record has the status \<^verbatim>\<open>null\<close>, and the store that has loaded it
  and then called \<^verbatim>\<open>update_task\<close> for the id 1.
\<close>

definition null_status_file :: filesystem where
  "null_status_file =
     [''tasks.json'' \<mapsto> Document (PyDict [(''1'', PyDict
        [(''id'', PyInt 1), (''description'', PyStr ''a''), (''status'', PyNone),
         (''created_at'', PyStr ''2025-12-01T09:30:00'')])])]"

definition null_status_store :: "TaskTracker \<times> filesystem" where
  "null_status_store =
     snd (perform (Update (PyInt 1) (PyStr ''b''))
       (snd (perform (Load (\<lambda>i. morning))
          (\<lparr>filename = ''tasks.json'', tasks = []\<rparr>, null_status_file))))"

text \<open>The store after two calls of \<^verbatim>\<open>add_task\<close>.\<close>

definition two_tasks :: "TaskTracker \<times> filesystem" where
  "two_tasks =
     snd (run [Add morning (PyStr ''buy milk''), Add morning (PyStr ''write report'')] no_tasks)"

text \<open>A file whose second record has a status that is no value of \<open>TaskStatus\<close>.\<close>

definition bad_status_file :: filesystem where
  "bad_status_file =
     [''tasks.json'' \<mapsto> Document (PyDict
        [(''1'', PyDict [(''id'', PyInt 1), (''description'', PyStr ''a''),
                        (''status'', PyStr ''todo''),
                        (''created_at'', PyStr ''2025-12-01T09:30:00'')]),
         (''2'', PyDict [(''id'', PyInt 2), (''description'', PyStr ''b''),
                        (''status'', PyStr ''finished''),
                        (''created_at'', PyStr ''2025-12-01T09:30:00'')])])]"

text \<open>
  A file whose ids are strings, a file whose integer ids are out of order, and the stores
  that have loaded them.
\<close>

definition string_ids_file :: filesystem where
  "string_ids_file =
     [''tasks.json'' \<mapsto> Document (PyDict
        [(''9'', PyDict [(''id'', PyStr ''9''), (''description'', PyStr ''a''),
                        (''status'', PyStr ''todo''),
                        (''created_at'', PyStr ''2025-12-01T09:30:00'')]),
         (''10'', PyDict [(''id'', PyStr ''10''), (''description'', PyStr ''b''),
                         (''status'', PyStr ''todo''),
                         (''created_at'', PyStr ''2025-12-01T09:30:00'')])])]"

definition unordered_file :: filesystem where
  "unordered_file =
     [''tasks.json'' \<mapsto> Document (PyDict
        [(''2'', PyDict [(''id'', PyInt 2), (''description'', PyStr ''b''),
                        (''status'', PyStr ''done''),
                        (''created_at'', PyStr ''2025-12-01T09:30:00'')]),
         (''1'', PyDict [(''id'', PyInt 1), (''description'', PyStr ''a''),
                        (''status'', PyStr ''todo''),
                        (''created_at'', PyStr ''2025-12-01T09:30:00'')]),
         (''3'', PyDict [(''id'', PyInt 3), (''description'', PyStr ''c''),
                        (''status'', PyStr ''done''),
                        (''created_at'', PyStr ''2025-12-01T09:30:00'')])])]"

definition unordered_store :: "TaskTracker \<times> filesystem" where
  "unordered_store =
     snd (perform (Load (\<lambda>i. morning))
            (\<lparr>filename = ''tasks.json'', tasks = []\<rparr>, unordered_file))"

definition string_ids_store :: "TaskTracker \<times> filesystem" where
  "string_ids_store =
     snd (perform (Load (\<lambda>i. morning))
            (\<lparr>filename = ''tasks.json'', tasks = []\<rparr>, string_ids_file))"



text \<open>
  A file whose record has a string as its id, a number as its description and
  \<^verbatim>\<open>true\<close> as its creation time, and the store that has loaded it.
\<close>

definition untyped_file :: filesystem where
  "untyped_file =
     [''tasks.json'' \<mapsto> Document (PyDict
        [(''1'', PyDict [(''id'', PyStr ''nine''), (''description'', PyInt 7),
                        (''status'', PyStr ''done''), (''created_at'', PyBool True)])])]"

definition untyped_store :: "TaskTracker \<times> filesystem" where
  "untyped_store =
     snd (perform (Load (\<lambda>i. morning))
            (\<lparr>filename = ''tasks.json'', tasks = []\<rparr>, untyped_file))"

text \<open>The task of the test at the end of TaskTracker.py, after \<^verbatim>\<open>markD\<close>.\<close>

definition make_program :: Task_tt where
  "make_program =
     \<lparr>id_tt = PyInt 1, taskDesc = PyStr ''Make Program'',
      createdOn = PyStr ''2025-12-01T09:30:00'', status_tt = DONE\<rparr>"

section \<open>Printing and reading an integer\<close>

lemma digit_cases: "d < 10 \<Longrightarrow> d \<in> {0, 1, 2, 3, 4, 5, 6, 7, 8, 9::nat}"
  by auto

lemma digit_val_digit_char: "d < 10 \<Longrightarrow> digit_val (digit_char d) = Some d"
  using digit_cases [of d] by (auto simp: digit_char_def digit_val_def)

lemma isspace_digit_char: "d < 10 \<Longrightarrow> \<not> isspace (digit_char d)"
  using digit_cases [of d] by (auto simp: digit_char_def isspace_def)

lemma digit_char_no_sign:
  "d < 10 \<Longrightarrow> digit_char d \<noteq> CHR ''-'' \<and> digit_char d \<noteq> CHR ''+'' \<and> digit_char d \<noteq> CHR ''_''"
  using digit_cases [of d] by (auto simp: digit_char_def)

lemma digits_dec_nat: "digits (dec_nat n)"
proof (induction n rule: dec_nat.induct)
  case (1 n)
  show ?case
  proof (cases "n < 10")
    case True
    then show ?thesis by (subst dec_nat.simps) (auto simp: digits_def)
  next
    case False
    have "\<exists>d<10. digit_char (n mod 10) = digit_char d"
      by (rule exI [of _ "n mod 10"]) simp
    with False 1 show ?thesis
      by (subst dec_nat.simps) (auto simp: digits_def)
  qed
qed

lemma dec_nat_nonempty: "dec_nat n \<noteq> []"
  by (subst dec_nat.simps) simp

lemma scan_digits_step:
  assumes "v < 10"
  shows "scan_digits acc (digit_char v # cs) = scan_digits (10 * acc + v) cs"
proof (cases cs)
  case Nil
  then show ?thesis using assms by (simp add: digit_val_digit_char)
next
  case (Cons d ds)
  have "digit_char v \<noteq> CHR ''_''" using assms digit_char_no_sign by blast
  then show ?thesis using assms Cons by (simp add: digit_val_digit_char)
qed

lemma scan_digits_value:
  "digits s \<Longrightarrow> scan_digits acc s = Some (digits_value acc s)"
proof (induction s arbitrary: acc)
  case Nil
  show ?case by (simp add: digits_value_def)
next
  case (Cons c cs)
  from Cons.prems obtain v where v: "v < 10" "c = digit_char v" by (auto simp: digits_def)
  have rest: "digits cs" using Cons.prems by (simp add: digits_def)
  have "scan_digits acc (c # cs) = scan_digits (10 * acc + v) cs"
    using v scan_digits_step by simp
  also have "\<dots> = Some (digits_value (10 * acc + v) cs)" by (rule Cons.IH [OF rest])
  also have "digits_value (10 * acc + v) cs = digits_value acc (c # cs)"
    using v by (simp add: digits_value_def digit_val_digit_char)
  finally show ?case .
qed

lemma digits_value_dec_nat: "digits_value 0 (dec_nat n) = n"
proof (induction n rule: dec_nat.induct)
  case (1 n)
  show ?case
  proof (cases "n < 10")
    case True
    then show ?thesis
      by (subst dec_nat.simps) (simp add: digits_value_def digit_val_digit_char)
  next
    case False
    have "n mod 10 < 10" by simp
    then have "digit_val (digit_char (n mod 10)) = Some (n mod 10)"
      by (rule digit_val_digit_char)
    with False 1 show ?thesis
      by (subst dec_nat.simps) (simp add: digits_value_def)
  qed
qed

lemma filter_digits: "digits s \<Longrightarrow> filter (\<lambda>x. x \<noteq> CHR ''_'') s = s"
proof -
  assume a: "digits s"
  have "c \<noteq> CHR ''_''" if "c \<in> set s" for c
  proof -
    from that a obtain d where "d < 10" "c = digit_char d" by (auto simp: digits_def)
    then show ?thesis using digit_char_no_sign [of d] by simp
  qed
  then show ?thesis by (simp add: filter_id_conv)
qed

lemma parse_digits_dec_nat:
  "parse_digits (dec_nat n) =
     (if int_max_str_digits < length (dec_nat n) then None else Some n)"
proof -
  obtain c cs where s: "dec_nat n = c # cs"
    using dec_nat_nonempty [of n] by (cases "dec_nat n") auto
  have dg: "digits (c # cs)" using digits_dec_nat [of n] s by simp
  then obtain d where d: "d < 10" "c = digit_char d" by (auto simp: digits_def)
  have "digits cs" using dg by (auto simp: digits_def)
  then have "scan_digits d cs = Some (digits_value d cs)" by (rule scan_digits_value)
  moreover have "digits_value d cs = digits_value 0 (c # cs)"
    using d by (simp add: digits_value_def digit_val_digit_char)
  moreover have "filter (\<lambda>x. x \<noteq> CHR ''_'') (c # cs) = c # cs" using dg by (rule filter_digits)
  ultimately show ?thesis
    using s d digits_value_dec_nat [of n]
    by (simp add: parse_digits_def digit_val_digit_char del: filter.simps)
qed

lemma dropWhile_hd: "xs \<noteq> [] \<Longrightarrow> \<not> P (hd xs) \<Longrightarrow> dropWhile P xs = xs"
  by (cases xs) auto

lemma strip_id: "s \<noteq> [] \<Longrightarrow> \<not> isspace (hd s) \<Longrightarrow> \<not> isspace (last s) \<Longrightarrow> strip s = s"
proof -
  assume a: "s \<noteq> []" "\<not> isspace (hd s)" "\<not> isspace (last s)"
  have 1: "dropWhile isspace s = s" using a by (simp add: dropWhile_hd)
  have "hd (rev s) = last s" using a by (simp add: hd_rev)
  then have 2: "dropWhile isspace (rev s) = rev s" using a by (simp add: dropWhile_hd)
  show ?thesis by (simp add: strip_def 1 2)
qed

lemma dec_nat_ends: "\<not> isspace (hd (dec_nat n)) \<and> \<not> isspace (last (dec_nat n))"
proof -
  have "hd (dec_nat n) \<in> set (dec_nat n)" "last (dec_nat n) \<in> set (dec_nat n)"
    using dec_nat_nonempty by simp_all
  then show ?thesis using digits_dec_nat [of n] isspace_digit_char by (auto simp: digits_def)
qed

lemma dec_nat_hd: "hd (dec_nat n) \<noteq> CHR ''-'' \<and> hd (dec_nat n) \<noteq> CHR ''+''"
proof -
  have "hd (dec_nat n) \<in> set (dec_nat n)" using dec_nat_nonempty by simp
  then show ?thesis using digits_dec_nat [of n] digit_char_no_sign by (auto simp: digits_def)
qed

lemma py_int_str_int_cases:
  "py_int (str_int n) =
     (if int_max_str_digits < length (dec_nat (nat \<bar>n\<bar>)) then None else Some n)"
proof (cases "n < 0")
  case True
  let ?s = "CHR ''-'' # dec_nat (nat (- n))"
  have "\<not> isspace (CHR ''-'')" by (simp add: isspace_def)
  moreover have "last ?s = last (dec_nat (nat (- n)))" using dec_nat_nonempty by simp
  ultimately have "strip ?s = ?s" using dec_nat_ends [of "nat (- n)"] by (intro strip_id) auto
  moreover have "nat \<bar>n\<bar> = nat (- n)" using True by simp
  ultimately show ?thesis using True by (simp add: py_int_def str_int_def parse_digits_dec_nat)
next
  case False
  let ?s = "dec_nat (nat n)"
  have st: "strip ?s = ?s" using dec_nat_ends [of "nat n"] dec_nat_nonempty by (intro strip_id) auto
  obtain c cs where s: "?s = c # cs" using dec_nat_nonempty [of "nat n"] by (cases ?s) auto
  have "c \<noteq> CHR ''-''" "c \<noteq> CHR ''+''" using dec_nat_hd [of "nat n"] s by auto
  moreover have "parse_digits (c # cs) =
     (if int_max_str_digits < length (dec_nat (nat n)) then None else Some (nat n))"
    using parse_digits_dec_nat [of "nat n"] s by simp
  moreover have "nat \<bar>n\<bar> = nat n" using False by simp
  ultimately show ?thesis using False st s by (simp add: py_int_def str_int_def)
qed

lemma py_int_str_int:
  "length (dec_nat (nat \<bar>n\<bar>)) \<le> int_max_str_digits \<Longrightarrow> py_int (str_int n) = Some n"
  by (simp add: py_int_str_int_cases)

lemma py_int_str_int_Some: "py_int (str_int n) = Some m \<Longrightarrow> m = n"
  by (simp add: py_int_str_int_cases split: if_splits)

lemma length_dec_nat: "0 < k \<Longrightarrow> n < 10 ^ k \<Longrightarrow> length (dec_nat n) \<le> k"
proof (induction n arbitrary: k rule: dec_nat.induct)
  case (1 n)
  show ?case
  proof (cases "n < 10")
    case True
    then show ?thesis using "1.prems" by (subst dec_nat.simps) simp
  next
    case False
    obtain j where j: "k = Suc j" using "1.prems"(1) by (cases k) auto
    have "j \<noteq> 0" using False "1.prems"(2) j by (cases j) auto
    then have j0: "0 < j" by simp
    have "n div 10 < 10 ^ j" using "1.prems"(2) j by (simp add: less_mult_imp_div_less)
    from "1.IH" [OF False j0 this] show ?thesis using False j by (subst dec_nat.simps) simp
  qed
qed

lemma digit_val_Some: "digit_val c = Some v \<Longrightarrow> v < 10 \<and> c \<noteq> CHR ''_''"
  by (auto simp: digit_val_def Let_def split: if_splits)

lemma scan_digits_bound:
  "scan_digits acc s = Some v \<Longrightarrow> acc < 10 ^ a \<Longrightarrow>
   v < 10 ^ (a + length (filter (\<lambda>x. x \<noteq> CHR ''_'') s))"
proof (induction s arbitrary: acc a rule: length_induct)
  case (1 s)
  show ?case
  proof (cases s)
    case Nil
    then show ?thesis using "1.prems" by simp
  next
    case (Cons c cs)
    show ?thesis
    proof (cases cs)
      case Nil
      from "1.prems"(1) Cons Nil obtain w where w: "digit_val c = Some w" "v = 10 * acc + w"
        by (auto split: option.splits)
      have "w < 10" "c \<noteq> CHR ''_''" using digit_val_Some [OF w(1)] by simp_all
      moreover have "10 * acc + w < 10 * 10 ^ a" using \<open>w < 10\<close> "1.prems"(2) by simp
      ultimately show ?thesis using w Cons Nil by simp
    next
      case (Cons d ds)
      note cs = Cons
      show ?thesis
      proof (cases "c = CHR ''_''")
        case True
        from "1.prems"(1) \<open>s = c # cs\<close> cs True obtain w
          where w: "digit_val d = Some w" "scan_digits (10 * acc + w) ds = Some v"
          by (auto split: option.splits)
        have d: "w < 10" "d \<noteq> CHR ''_''" using digit_val_Some [OF w(1)] by simp_all
        have b: "10 * acc + w < 10 ^ Suc a" using d(1) "1.prems"(2) by simp
        have "length ds < length s" using \<open>s = c # cs\<close> cs by simp
        then have "v < 10 ^ (Suc a + length (filter (\<lambda>x. x \<noteq> CHR ''_'') ds))"
          using "1.IH" w(2) b by blast
        then show ?thesis using \<open>s = c # cs\<close> cs True d(2) by simp
      next
        case False
        from "1.prems"(1) \<open>s = c # cs\<close> cs False obtain w
          where w: "digit_val c = Some w" "scan_digits (10 * acc + w) cs = Some v"
          by (auto split: option.splits)
        have d: "w < 10" using digit_val_Some [OF w(1)] by simp
        have b: "10 * acc + w < 10 ^ Suc a" using d "1.prems"(2) by simp
        have "length cs < length s" using \<open>s = c # cs\<close> by simp
        then have "v < 10 ^ (Suc a + length (filter (\<lambda>x. x \<noteq> CHR ''_'') cs))"
          using "1.IH" w(2) b by blast
        then show ?thesis using \<open>s = c # cs\<close> False by simp
      qed
    qed
  qed
qed

lemma parse_digits_bound:
  assumes "parse_digits s = Some v"
  shows "v < 10 ^ int_max_str_digits"
proof -
  from assms obtain c cs w where s: "s = c # cs" and w: "digit_val c = Some w"
    and len: "length (filter (\<lambda>x. x \<noteq> CHR ''_'') s) \<le> int_max_str_digits"
    and sc: "scan_digits w cs = Some v"
    by (auto simp: parse_digits_def split: list.splits option.splits if_splits)
  have d: "w < 10 ^ 1" "c \<noteq> CHR ''_''" using digit_val_Some [OF w] by simp_all
  from scan_digits_bound [OF sc d(1)]
  have "v < 10 ^ length (filter (\<lambda>x. x \<noteq> CHR ''_'') s)" using s d(2) by simp
  also have "\<dots> \<le> (10::nat) ^ int_max_str_digits" using len by (intro power_increasing) simp_all
  finally show ?thesis .
qed

lemma py_int_bound:
  assumes "py_int k = Some m"
  shows "\<bar>m\<bar> < 10 ^ int_max_str_digits"
proof -
  have nat_bound: "int v < 10 ^ int_max_str_digits" if "parse_digits s = Some v" for s v
  proof -
    have "int v < int (10 ^ int_max_str_digits)"
      using parse_digits_bound [OF that] by (simp only: of_nat_less_iff)
    then show ?thesis by simp
  qed
  from assms obtain s v where "parse_digits s = Some v" and "m = int v \<or> m = - int v"
    by (auto simp: py_int_def split: list.splits if_splits)
  then show ?thesis using nat_bound by auto
qed

lemma py_int_small:
  assumes "\<bar>n\<bar> < 10 ^ int_max_str_digits"
  shows "py_int (str_int n) = Some n"
proof -
  have "int (nat \<bar>n\<bar>) < int (10 ^ int_max_str_digits)" using assms by simp
  then have "nat \<bar>n\<bar> < 10 ^ int_max_str_digits" by (simp only: of_nat_less_iff)
  moreover have "0 < int_max_str_digits" by (simp add: int_max_str_digits_def)
  ultimately have "length (dec_nat (nat \<bar>n\<bar>)) \<le> int_max_str_digits"
    using length_dec_nat by blast
  then show ?thesis by (rule py_int_str_int)
qed

lemma ten_le_limit: "(10::int) \<le> 10 ^ int_max_str_digits"
proof -
  have "(10::int) ^ 1 \<le> 10 ^ int_max_str_digits"
    by (rule power_increasing) (simp_all add: int_max_str_digits_def)
  then show ?thesis by simp
qed

section \<open>Serialization, loading and the invariant of the store\<close>

lemma update_fresh: "k \<notin> fst ` set al \<Longrightarrow> AList.update k v al = al @ [(k, v)]"
  by (induction al) auto

lemma list_all_update:
  "list_all P al \<Longrightarrow> P (k, v) \<Longrightarrow> list_all P (AList.update k v al)"
  by (induction al) auto

lemma list_all_delete: "list_all P al \<Longrightarrow> list_all P (AList.delete k al)"
  by (induction al) auto

lemma to_dict_member:
  "is_member (status task) \<Longrightarrow> \<exists>d. to_dict task = Inr d \<and> PyDict d = record_of task"
  by (cases "status task") (simp_all add: to_dict_def record_of_def)

lemma to_dict_plain: "\<not> is_member (status task) \<Longrightarrow> to_dict task = Inl AttributeError"
  by (cases "status task") (simp_all add: to_dict_def)

lemma dump_data_members:
  "members ts \<Longrightarrow> dump_data ts = Inr (map (\<lambda>(k, task). (k, record_of task)) ts)"
proof (induction ts)
  case Nil
  show ?case by simp
next
  case (Cons p ts)
  obtain k task where p: "p = (k, task)" by (cases p)
  from Cons.prems p have m: "is_member (status task)" and rest: "members ts"
    by (simp_all add: members_def)
  from to_dict_member [OF m] obtain d where d: "to_dict task = Inr d" "PyDict d = record_of task"
    by blast
  show ?case using Cons.IH [OF rest] p d by simp
qed

lemma dump_data_not_members: "\<not> members ts \<Longrightarrow> dump_data ts = Inl AttributeError"
proof (induction ts)
  case Nil
  then show ?case by (simp add: members_def)
next
  case (Cons p ts)
  obtain k task where p: "p = (k, task)" by (cases p)
  show ?case
  proof (cases "is_member (status task)")
    case False
    then show ?thesis using p by (simp add: to_dict_plain)
  next
    case True
    then have "\<not> members ts" using Cons.prems p by (simp add: members_def)
    then have "dump_data ts = Inl AttributeError" by (rule Cons.IH)
    moreover obtain d where "to_dict task = Inr d" using to_dict_member [OF True] by blast
    ultimately show ?thesis using p by simp
  qed
qed

lemma save_tasks_members:
  "members (tasks t) \<Longrightarrow>
   save_tasks t fs =
     (Inr (), fs(filename t \<mapsto> Document (PyDict (map (\<lambda>(k, task). (k, record_of task)) (tasks t)))))"
  by (simp add: save_tasks_def dump_data_members)

lemma save_tasks_not_members:
  "\<not> members (tasks t) \<Longrightarrow> save_tasks t fs = (Inl AttributeError, fs)"
  by (simp add: save_tasks_def dump_data_not_members)

lemma TaskStatus_call_value: "TaskStatus_call (Plain (PyStr (status_value m))) = Inr m"
  by (cases m) simp_all

lemma load_entry_record_of:
  assumes "is_member (status task)" and "py_truthy (created_at task)"
  shows "load_entry now (record_of task) = Inr task"
proof -
  from assms(1) obtain m where m: "status task = Member m" by (cases "status task") auto
  show ?thesis
    using m assms(2)
    by (cases task; cases m) (simp_all add: load_entry_def record_of_def Task_init_def)
qed

lemma load_entries_records:
  assumes "distinct (map fst (acc @ ts))"
    and "list_all (\<lambda>(k, task). k = py_str (id_of task) \<and> py_truthy (created_at task)
                     \<and> is_member (status task)) ts"
  shows "load_entries clock i (map (\<lambda>(k, task). (k, record_of task)) ts) acc = (None, acc @ ts)"
  using assms
proof (induction ts arbitrary: acc i)
  case Nil
  show ?case by simp
next
  case (Cons p ts)
  obtain k task where p: "p = (k, task)" by (cases p)
  from Cons.prems(2) p have k: "k = py_str (id_of task)" and tr: "py_truthy (created_at task)"
    and mem: "is_member (status task)" by simp_all
  have fresh: "k \<notin> fst ` set acc" using Cons.prems(1) p by auto
  have d: "distinct (map fst ((acc @ [(k, task)]) @ ts))" using Cons.prems(1) p by simp
  have rest: "list_all (\<lambda>(k, task). k = py_str (id_of task) \<and> py_truthy (created_at task)
                     \<and> is_member (status task)) ts" using Cons.prems(2) by simp
  have "load_entries clock (Suc i) (map (\<lambda>(k, task). (k, record_of task)) ts) (acc @ [(k, task)])
        = (None, (acc @ [(k, task)]) @ ts)"
    by (rule Cons.IH [OF d rest])
  then show ?case
    using p k fresh by (simp add: load_entry_record_of [OF mem tr] update_fresh)
qed

lemma isoformat_nonempty: "isoformat now \<noteq> []"
  by (simp add: isoformat_def)

lemma status_of_arg_not_str: "status_of_arg st = Inr st' \<Longrightarrow> \<not> is_str st'"
  by (induction st rule: status_of_arg.induct) (auto split: sum.splits)

lemma Task_init_Inr:
  assumes "Task_init now i d st c = Inr x"
  shows "id_of x = i \<and> description x = d \<and> py_truthy (created_at x) \<and> \<not> is_str (status x)"
proof -
  from assms obtain st' where st: "status_of_arg st = Inr st'"
    and x: "x = \<lparr>id_of = i, description = d, status = st',
                 created_at = (if py_truthy c then c else PyStr (isoformat now))\<rparr>"
    by (auto simp: Task_init_def split: sum.splits)
  show ?thesis using x status_of_arg_not_str [OF st] by (simp add: isoformat_nonempty)
qed

lemma load_entry_Inr:
  "load_entry now d = Inr x \<Longrightarrow> py_truthy (created_at x) \<and> \<not> is_str (status x)"
  by (auto simp: load_entry_def split: sum.splits dest: Task_init_Inr)

lemma store_inv_held: "store_inv t = (distinct (map fst (tasks t)) \<and> list_all held_ok (tasks t))"
  by (simp add: store_inv_def)

lemma load_entries_inv:
  assumes "distinct (map fst ts)" and "list_all held_ok ts"
    and "load_entries clock i es ts = (r, ts')"
  shows "distinct (map fst ts') \<and> list_all held_ok ts'"
  using assms
proof (induction es arbitrary: ts i)
  case Nil
  then show ?case by simp
next
  case (Cons p es)
  obtain k d where p: "p = (k, d)" by (cases p)
  show ?case
  proof (cases "load_entry (clock i) d")
    case (Inl e)
    then show ?thesis using Cons.prems p by simp
  next
    case (Inr x)
    let ?ts = "AList.update (py_str (id_of x)) x ts"
    have 1: "distinct (map fst ?ts)" using Cons.prems(1) by (rule distinct_update)
    have "held_ok (py_str (id_of x), x)" using load_entry_Inr [OF Inr] by (simp add: held_ok_def)
    then have 2: "list_all held_ok ?ts" using Cons.prems(2) by (intro list_all_update)
    have "load_entries clock (Suc i) es ?ts = (r, ts')" using Cons.prems(3) p Inr by simp
    from Cons.IH [OF 1 2 this] show ?thesis .
  qed
qed

lemma load_tasks_inv: "store_inv t \<Longrightarrow> store_inv (snd (load_tasks clock t fs))"
proof -
  assume inv: "store_inv t"
  show ?thesis
  proof (cases "fs (filename t)")
    case None
    then show ?thesis using inv by (simp add: load_tasks_def)
  next
    case (Some f)
    show ?thesis
    proof (cases f)
      case Unparseable
      then show ?thesis using inv Some by (simp add: load_tasks_def)
    next
      case (Document v)
      show ?thesis
      proof (cases v)
        case (PyDict data)
        obtain r ts' where l: "load_entries clock 0 data (tasks t) = (r, ts')"
          by (cases "load_entries clock 0 data (tasks t)")
        have "distinct (map fst ts') \<and> list_all held_ok ts'"
          using inv l by (intro load_entries_inv [of "tasks t" clock 0 data r ts'])
            (simp_all add: store_inv_held)
        then show ?thesis using Some Document PyDict l
          by (cases r) (simp_all add: load_tasks_def store_inv_held)
      qed (use inv Some Document in \<open>simp_all add: load_tasks_def\<close>)
    qed
  qed
qed

lemma save_and_return_store: "save_and_return r t fs = (res, t', fs') \<Longrightarrow> t' = t"
  by (auto simp: save_and_return_def split: prod.splits sum.splits)

lemma store_inv_update:
  assumes "store_inv t" and "held_ok (k, x)"
  shows "store_inv (t\<lparr>tasks := AList.update k x (tasks t)\<rparr>)"
  using assms by (simp add: store_inv_held distinct_update list_all_update)

lemma store_inv_delete: "store_inv t \<Longrightarrow> store_inv (t\<lparr>tasks := AList.delete k (tasks t)\<rparr>)"
  by (simp add: store_inv_held distinct_delete list_all_delete)

lemma held_lookup:
  assumes "store_inv t" and "get_task i t = Some x"
  shows "held_ok (py_str i, x)"
proof -
  have "(py_str i, x) \<in> set (tasks t)" using assms(2) by (auto simp: get_task_def dest: map_of_SomeD)
  then show ?thesis using assms(1) by (auto simp: store_inv_held list_all_iff)
qed

lemma add_task_inv:
  assumes "store_inv t" and "add_task now d t fs = (r, t', fs')"
  shows "store_inv t'"
proof (cases "get_next_id t")
  case (Inl e)
  then show ?thesis using assms by (simp add: add_task_def)
next
  case (Inr n)
  show ?thesis
  proof (cases "Task_init now (PyInt n) d (Member TODO) PyNone")
    case (Inl e)
    then show ?thesis using assms Inr by (simp add: add_task_def)
  next
    case (Inr x)
    have "held_ok (py_str (PyInt n), x)" using Task_init_Inr [OF Inr] by (simp add: held_ok_def)
    then have "store_inv (t\<lparr>tasks := AList.update (py_str (PyInt n)) x (tasks t)\<rparr>)"
      using assms(1) by (intro store_inv_update)
    moreover have "t' = t\<lparr>tasks := AList.update (py_str (PyInt n)) x (tasks t)\<rparr>"
      using assms(2) \<open>get_next_id t = Inr n\<close> Inr
      by (auto simp: add_task_def dest: save_and_return_store)
    ultimately show ?thesis by simp
  qed
qed

lemma update_task_inv:
  assumes "store_inv t" and "update_task i d t fs = (r, t', fs')"
  shows "store_inv t'"
proof (cases "get_task i t")
  case None
  then show ?thesis using assms by (simp add: update_task_def)
next
  case (Some x)
  have "held_ok (py_str i, update_description d x)"
    using held_lookup [OF assms(1) Some] by (simp add: held_ok_def update_description_def)
  then have "store_inv (t\<lparr>tasks := AList.update (py_str i) (update_description d x) (tasks t)\<rparr>)"
    using assms(1) by (intro store_inv_update)
  moreover have "t' = t\<lparr>tasks := AList.update (py_str i) (update_description d x) (tasks t)\<rparr>"
    using assms(2) Some by (auto simp: update_task_def dest: save_and_return_store)
  ultimately show ?thesis by simp
qed

lemma mark_in_progress_inv:
  assumes "store_inv t" and "mark_in_progress i t fs = (r, t', fs')"
  shows "store_inv t'"
proof (cases "get_task i t")
  case None
  then show ?thesis using assms by (simp add: mark_in_progress_def)
next
  case (Some x)
  have "held_ok (py_str i, Task_mark_in_progress x)"
    using held_lookup [OF assms(1) Some] by (simp add: held_ok_def Task_mark_in_progress_def)
  then have "store_inv (t\<lparr>tasks := AList.update (py_str i) (Task_mark_in_progress x) (tasks t)\<rparr>)"
    using assms(1) by (intro store_inv_update)
  moreover have "t' = t\<lparr>tasks := AList.update (py_str i) (Task_mark_in_progress x) (tasks t)\<rparr>"
    using assms(2) Some by (auto simp: mark_in_progress_def dest: save_and_return_store)
  ultimately show ?thesis by simp
qed

lemma mark_done_inv:
  assumes "store_inv t" and "mark_done i t fs = (r, t', fs')"
  shows "store_inv t'"
proof (cases "get_task i t")
  case None
  then show ?thesis using assms by (simp add: mark_done_def)
next
  case (Some x)
  have "held_ok (py_str i, Task_mark_done x)"
    using held_lookup [OF assms(1) Some] by (simp add: held_ok_def Task_mark_done_def)
  then have "store_inv (t\<lparr>tasks := AList.update (py_str i) (Task_mark_done x) (tasks t)\<rparr>)"
    using assms(1) by (intro store_inv_update)
  moreover have "t' = t\<lparr>tasks := AList.update (py_str i) (Task_mark_done x) (tasks t)\<rparr>"
    using assms(2) Some by (auto simp: mark_done_def dest: save_and_return_store)
  ultimately show ?thesis by simp
qed

lemma delete_task_inv:
  assumes "store_inv t" and "delete_task i t fs = (r, t', fs')"
  shows "store_inv t'"
proof (cases "py_str i \<in> set (map fst (tasks t))")
  case False
  then show ?thesis using assms by (simp add: delete_task_def)
next
  case True
  have "t' = t\<lparr>tasks := AList.delete (py_str i) (tasks t)\<rparr>"
    using assms(2) True by (auto simp: delete_task_def dest: save_and_return_store)
  then show ?thesis using store_inv_delete [OF assms(1)] by simp
qed

lemma perform_inv:
  assumes "store_inv t"
  shows "store_inv (fst (snd (perform c (t, fs))))"
proof (cases c)
  case (Load clock)
  then show ?thesis using load_tasks_inv [OF assms, of clock fs]
    by (auto split: prod.splits)
next
  case (Add now d)
  then show ?thesis using add_task_inv [OF assms] by (simp split: prod.splits)
next
  case (Update i d)
  then show ?thesis using update_task_inv [OF assms] by (simp split: prod.splits)
next
  case (Delete i)
  then show ?thesis using delete_task_inv [OF assms] by (simp split: prod.splits)
next
  case (MarkInProgress i)
  then show ?thesis using mark_in_progress_inv [OF assms] by (simp split: prod.splits)
next
  case (MarkDone i)
  then show ?thesis using mark_done_inv [OF assms] by (simp split: prod.splits)
qed (use assms in simp_all)

lemma reach_store_inv: "reach s \<Longrightarrow> store_inv (fst s)"
proof (induction rule: reach.induct)
  case (fresh name fs)
  show ?case by (simp add: store_inv_def)
next
  case (call s c)
  obtain t fs where s: "s = (t, fs)" by (cases s)
  then show ?case using perform_inv [of t c fs] call.IH by simp
next
  case (edit t fs fs')
  then show ?case by simp
qed

lemma save_and_return_members:
  "members (tasks t) \<Longrightarrow> fst (save_and_return r t fs) = Inr r"
  by (simp add: save_and_return_def save_tasks_members)

lemma members_update:
  "members ts \<Longrightarrow> is_member (status x) \<Longrightarrow> members (AList.update k x ts)"
  unfolding members_def by (rule list_all_update) simp_all

lemma members_delete: "members ts \<Longrightarrow> members (AList.delete k ts)"
  unfolding members_def by (rule list_all_delete)

lemma members_lookup:
  assumes "members (tasks t)" and "get_task i t = Some x"
  shows "is_member (status x)"
proof -
  have "(py_str i, x) \<in> set (tasks t)"
    using assms(2) by (auto simp: get_task_def dest: map_of_SomeD)
  then show ?thesis using assms(1) by (auto simp: members_def list_all_iff)
qed

lemma held_key: "(py_str i \<in> set (map fst (tasks t))) = (get_task i t \<noteq> None)"
  by (simp add: get_task_def map_of_eq_None_iff)



lemma status_of_arg_bad:
  "s \<notin> {''todo'', ''in-progress'', ''done''} \<Longrightarrow> status_of_arg (Plain (PyStr s)) = Inl ValueError"
  by simp

lemma load_entry_bad:
  assumes "map_of items ''status'' = Some (PyStr s)"
    and "s \<notin> {''todo'', ''in-progress'', ''done''}"
  shows "\<exists>e. load_entry now (PyDict items) = Inl e"
proof -
  have "Task_init now i d (Plain (PyStr s)) c = Inl ValueError" for i d c
    using assms(2) by (simp add: Task_init_def)
  then show ?thesis
    using assms(1) by (auto simp: load_entry_def split: option.splits)
qed

lemma load_entries_bad:
  assumes "(k, d) \<in> set entries" and "\<And>now. \<exists>e. load_entry now d = Inl e"
  shows "\<exists>e. fst (load_entries clock i entries ts) = Some e"
  using assms(1)
proof (induction entries arbitrary: i ts)
  case Nil
  then show ?case by simp
next
  case (Cons p entries)
  obtain k' d' where p: "p = (k', d')" by (cases p)
  show ?case
  proof (cases "load_entry (clock i) d'")
    case (Inl e)
    then show ?thesis using p by simp
  next
    case (Inr x)
    have "d' \<noteq> d" using Inr assms(2) [of "clock i"] by auto
    then have "(k, d) \<in> set entries" using Cons.prems p by auto
    then have "\<exists>e. fst (load_entries clock (Suc i) entries
        (AList.update (py_str (id_of x)) x ts)) = Some e" by (rule Cons.IH)
    then show ?thesis using p Inr by simp
  qed
qed

lemma those_map_Some:
  "those (map f xs) = Some ns \<Longrightarrow> x \<in> set xs \<Longrightarrow> \<exists>m \<in> set ns. f x = Some m"
proof (induction xs arbitrary: ns)
  case Nil
  then show ?case by simp
next
  case (Cons y ys)
  from Cons.prems(1) obtain m ms where m: "f y = Some m" and ms: "those (map f ys) = Some ms"
    and ns: "ns = m # ms"
    by (auto split: option.splits)
  show ?case
  proof (cases "x = y")
    case True
    then show ?thesis using m ns by simp
  next
    case False
    then have "x \<in> set ys" using Cons.prems(2) by simp
    from Cons.IH [OF ms this] show ?thesis using ns by auto
  qed
qed

lemma those_map_set:
  "those (map f xs) = Some ns \<Longrightarrow> m \<in> set ns \<Longrightarrow> \<exists>x \<in> set xs. f x = Some m"
proof (induction xs arbitrary: ns)
  case Nil
  then show ?case by simp
next
  case (Cons y ys)
  from Cons.prems(1) obtain k ms where k: "f y = Some k" and ms: "those (map f ys) = Some ms"
    and ns: "ns = k # ms"
    by (auto split: option.splits)
  show ?case
  proof (cases "m = k")
    case True
    then show ?thesis using k by auto
  next
    case False
    then have "m \<in> set ms" using Cons.prems(2) ns by simp
    from Cons.IH [OF ms this] show ?thesis by auto
  qed
qed

lemma those_map_None:
  "those (map f xs) = None \<Longrightarrow> \<exists>x \<in> set xs. f x = None"
  by (induction xs) (auto split: option.splits)

lemma below_iff:
  "below t n = (\<forall>(k, task) \<in> set (tasks t). \<exists>m. py_int k = Some m \<and> m < n)"
  by (auto simp: below_def list_all_iff split: option.splits)

lemma get_next_id_empty: "tasks t = [] \<Longrightarrow> get_next_id t = Inr 1"
  by (simp add: get_next_id_def)

lemma get_next_id_below:
  assumes "get_next_id t = Inr n"
  shows "below t n"
proof (cases "tasks t = []")
  case True
  then show ?thesis by (simp add: below_def)
next
  case False
  let ?f = "\<lambda>(task_id, task). py_int task_id"
  from assms False obtain ns where ns: "those (map ?f (tasks t)) = Some ns"
    and n: "n = Max (set ns) + 1"
    by (auto simp: get_next_id_def split: option.splits)
  have "\<exists>m. py_int k = Some m \<and> m < n" if "(k, x) \<in> set (tasks t)" for k x
  proof -
    from those_map_Some [OF ns that] obtain m where m: "m \<in> set ns" "py_int k = Some m"
      by auto
    then have "m \<le> Max (set ns)" by simp
    then show ?thesis using m n by simp
  qed
  then show ?thesis by (auto simp: below_iff)
qed

lemma get_next_id_largest:
  assumes "get_next_id t = Inr n" and "tasks t \<noteq> []"
  shows "\<exists>(k, task) \<in> set (tasks t). py_int k = Some (n - 1)"
proof -
  let ?f = "\<lambda>(task_id, task). py_int task_id"
  from assms obtain ns where ns: "those (map ?f (tasks t)) = Some ns"
    and n: "n = Max (set ns) + 1"
    by (auto simp: get_next_id_def split: option.splits)
  have "ns \<noteq> []" using ns assms(2) by (cases "tasks t") (auto split: option.splits)
  then have "Max (set ns) \<in> set ns" by simp
  from those_map_set [OF ns this] show ?thesis using n by auto
qed

lemma below_fresh:
  assumes "below t n"
  shows "str_int n \<notin> fst ` set (tasks t)"
proof
  assume "str_int n \<in> fst ` set (tasks t)"
  then obtain x where "(str_int n, x) \<in> set (tasks t)" by auto
  then have "\<exists>m. py_int (str_int n) = Some m \<and> m < n" using assms by (auto simp: below_iff)
  then show False by (auto dest: py_int_str_int_Some)
qed

lemma Task_init_new:
  "Task_init now (PyInt n) d (Member TODO) PyNone = Inr (new_task now n d)"
  by (simp add: Task_init_def new_task_def)

lemma py_str_int: "py_str (PyInt n) = str_int n"
  by (simp add: py_str_def)

lemma add_task_raises:
  "get_next_id t = Inl e \<Longrightarrow> add_task now d t fs = (Inl e, t, fs)"
  by (simp add: add_task_def)

lemma add_task_assigns:
  assumes "get_next_id t = Inr n" and "add_task now d t fs = (r, t', fs')"
  shows "t' = t\<lparr>tasks := tasks t @ [(str_int n, new_task now n d)]\<rparr>"
    and "r = Inr (new_task now n d) \<or> r = Inl AttributeError"
proof -
  have "str_int n \<notin> fst ` set (tasks t)"
    using get_next_id_below [OF assms(1)] by (rule below_fresh)
  then have u: "AList.update (str_int n) (new_task now n d) (tasks t)
                = tasks t @ [(str_int n, new_task now n d)]"
    by (rule update_fresh)
  let ?t = "t\<lparr>tasks := tasks t @ [(str_int n, new_task now n d)]\<rparr>"
  have a: "add_task now d t fs = save_and_return (new_task now n d) ?t fs"
    using assms(1) by (simp add: add_task_def Task_init_new py_str_int u)
  then have sr: "save_and_return (new_task now n d) ?t fs = (r, t', fs')"
    using assms(2) by simp
  then show "t' = ?t" by (rule save_and_return_store)
  show "r = Inr (new_task now n d) \<or> r = Inl AttributeError"
  proof (cases "members (tasks ?t)")
    case True
    then have "fst (save_and_return (new_task now n d) ?t fs) = Inr (new_task now n d)"
      by (rule save_and_return_members)
    then show ?thesis by (simp add: sr)
  next
    case False
    then have "save_tasks ?t fs = (Inl AttributeError, fs)" by (rule save_tasks_not_members)
    then have "save_and_return (new_task now n d) ?t fs = (Inl AttributeError, ?t, fs)"
      by (simp add: save_and_return_def)
    then show ?thesis by (simp add: sr)
  qed
qed

lemma below_append:
  "below (t\<lparr>tasks := tasks t @ [(k, x)]\<rparr>) n = (below t n \<and> (\<exists>m. py_int k = Some m \<and> m < n))"
  by (auto simp: below_def split: option.splits)

lemma id_less_neq: "id_less x y \<Longrightarrow> id_of x \<noteq> id_of y"
  by (auto simp: id_less_def split: pyval.splits)

lemma id_less_distinct: "sorted_wrt id_less xs \<Longrightarrow> distinct (map id_of xs)"
  by (induction xs) (auto dest: id_less_neq)

lemma perform_add:
  "perform (Add now d) (t, fs) = (r, s) \<Longrightarrow>
   \<exists>r0. add_task now d t fs = (r0, s) \<and> r = reply_of Added r0"
  by (auto split: prod.splits)

lemma run_adds:
  assumes "list_all is_add cs" and "run cs (t, fs) = (rs, t', fs')"
  shows "(\<forall>k v. map_of (tasks t) k = Some v \<longrightarrow> map_of (tasks t') k = Some v) \<and>
         (\<forall>a \<in> set (added rs). \<exists>n. id_of a = PyInt n \<and> below t n) \<and>
         sorted_wrt id_less (added rs) \<and>
         list_all2 (\<lambda>c r. \<forall>a. r = Added a \<longrightarrow>
            (\<exists>now. c = Add now (description a)) \<and> status a = Member TODO \<and>
            map_of (tasks t') (py_str (id_of a)) = Some a) cs rs"
  using assms
proof (induction cs arbitrary: t fs rs)
  case Nil
  then show ?case by simp
next
  case (Cons c cs)
  from Cons.prems(1) obtain now d where c: "c = Add now d" by (cases c) auto
  from Cons.prems(1) have adds: "list_all is_add cs" by simp
  obtain r t1 fs1 where p: "perform c (t, fs) = (r, t1, fs1)" by (cases "perform c (t, fs)")
  obtain rs1 where q: "run cs (t1, fs1) = (rs1, t', fs')" and rs: "rs = r # rs1"
    using Cons.prems(2) p by (auto split: prod.splits)
  from perform_add [OF p [unfolded c]] obtain r0
    where a: "add_task now d t fs = (r0, t1, fs1)" and r: "r = reply_of Added r0" by blast
  note IH = Cons.IH [OF adds q]
  show ?case
  proof (cases "get_next_id t")
    case (Inl e)
    then have "r0 = Inl e" "t1 = t" using a by (simp_all add: add_task_raises)
    then show ?thesis using IH rs r c by (simp add: reply_of_def)
  next
    case (Inr n)
    let ?x = "new_task now n d"
    have t1: "t1 = t\<lparr>tasks := tasks t @ [(str_int n, ?x)]\<rparr>"
      using add_task_assigns(1) [OF Inr a] .
    have r0: "r0 = Inr ?x \<or> r0 = Inl AttributeError"
      using add_task_assigns(2) [OF Inr a] .
    have b: "below t n" using Inr by (rule get_next_id_below)
    have fresh: "str_int n \<notin> fst ` set (tasks t)" using b by (rule below_fresh)
    then have none: "map_of (tasks t) (str_int n) = None" by (simp add: map_of_eq_None_iff)
    have keep: "map_of (tasks t1) k = Some v" if "map_of (tasks t) k = Some v" for k v
      using that t1 by (simp add: map_add_def)
    have new: "map_of (tasks t1) (str_int n) = Some ?x"
      using t1 none by (simp add: map_add_def)
    have in_t': "map_of (tasks t') (str_int n) = Some ?x" using IH new by blast
    have above: "\<exists>m. id_of y = PyInt m \<and> below t m \<and> n < m" if "y \<in> set (added rs1)" for y
    proof -
      from IH that obtain m where m: "id_of y = PyInt m" "below t1 m" by blast
      then show ?thesis using t1 by (auto simp: below_append dest: py_int_str_int_Some)
    qed
    have 1: "\<forall>k v. map_of (tasks t) k = Some v \<longrightarrow> map_of (tasks t') k = Some v"
      using IH keep by blast
    have 4: "list_all2 (\<lambda>c r. \<forall>a. r = Added a \<longrightarrow>
            (\<exists>now. c = Add now (description a)) \<and> status a = Member TODO \<and>
            map_of (tasks t') (py_str (id_of a)) = Some a) (c # cs) rs"
      using IH rs r r0 c in_t' by (auto simp: reply_of_def new_task_def py_str_int)
    have 2: "\<forall>a \<in> set (added rs1). \<exists>m. id_of a = PyInt m \<and> below t m"
      using above by blast
    have 3: "sorted_wrt id_less (added rs1)" using IH by simp
    show ?thesis
    proof (cases r0)
      case (Inl e)
      then have "added rs = added rs1" using rs r by (simp add: reply_of_def)
      then show ?thesis using 1 2 3 4 by simp
    next
      case (Inr x)
      then have x: "x = ?x" using r0 by simp
      then have ad: "added rs = ?x # added rs1" using rs r Inr by (simp add: reply_of_def)
      have "id_less ?x y" if "y \<in> set (added rs1)" for y
        using above [OF that] by (auto simp: id_less_def new_task_def)
      then have 5: "sorted_wrt id_less (added rs)" using 3 ad by simp
      have 6: "\<forall>a \<in> set (added rs). \<exists>n. id_of a = PyInt n \<and> below t n"
        using ad b 2 by (simp add: new_task_def)
      show ?thesis using 1 5 6 4 by simp
    qed
  qed
qed

lemma numeric_next_id:
  assumes "numeric_keys (tasks t)"
  shows "\<exists>n. get_next_id t = Inr n"
proof (cases "tasks t = []")
  case True
  then show ?thesis by (simp add: get_next_id_def)
next
  case False
  let ?f = "\<lambda>(task_id, task). py_int task_id"
  have "those (map ?f (tasks t)) \<noteq> None"
  proof
    assume "those (map ?f (tasks t)) = None"
    from those_map_None [OF this] show False
      using assms by (auto simp: numeric_keys_def list_all_iff)
  qed
  then show ?thesis using False by (auto simp: get_next_id_def)
qed

lemma below_numeric: "below t b \<Longrightarrow> numeric_keys (tasks t)"
  by (auto simp: below_def numeric_keys_def list_all_iff split: option.splits)

lemma get_next_id_le:
  assumes "get_next_id t = Inr n" and "below t b" and "1 \<le> b"
  shows "n \<le> b"
proof (cases "tasks t = []")
  case True
  then show ?thesis using assms(1,3) by (simp add: get_next_id_empty)
next
  case False
  from get_next_id_largest [OF assms(1) False] obtain k x
    where "(k, x) \<in> set (tasks t)" "py_int k = Some (n - 1)" by auto
  then have "n - 1 < b" using assms(2) by (auto simp: below_iff)
  then show ?thesis by simp
qed

lemma get_next_id_bound:
  assumes "get_next_id t = Inr n"
  shows "- (10 ^ int_max_str_digits) < n"
proof (cases "tasks t = []")
  case True
  have "(0::int) < 10 ^ int_max_str_digits" by simp
  then have "- (10 ^ int_max_str_digits) < (1::int)" by linarith
  then show ?thesis using assms True by (simp add: get_next_id_empty)
next
  case False
  from get_next_id_largest [OF assms False] obtain k x
    where "py_int k = Some (n - 1)" by auto
  from py_int_bound [OF this] show ?thesis by simp
qed

lemma run_adds_return:
  assumes "list_all is_add cs" and "run cs (t, fs) = (rs, t', fs')"
    and "members (tasks t)"
    and "int (length cs) < 10 ^ int_max_str_digits"
    and "below t (10 ^ int_max_str_digits - int (length cs))"
  shows "length (added rs) = length cs"
  using assms
proof (induction cs arbitrary: t fs rs)
  case Nil
  then show ?case by simp
next
  case (Cons c cs)
  let ?B = "(10::int) ^ int_max_str_digits"
  from Cons.prems(1) obtain now d where c: "c = Add now d" by (cases c) auto
  from Cons.prems(1) have adds: "list_all is_add cs" by simp
  obtain r t1 fs1 where p: "perform c (t, fs) = (r, t1, fs1)" by (cases "perform c (t, fs)")
  obtain rs1 where q: "run cs (t1, fs1) = (rs1, t', fs')" and rs: "rs = r # rs1"
    using Cons.prems(2) p by (auto split: prod.splits)
  from perform_add [OF p [unfolded c]] obtain r0
    where a: "add_task now d t fs = (r0, t1, fs1)" and r: "r = reply_of Added r0" by blast
  have "int (length (c # cs)) = int (length cs) + 1" by simp
  then have len: "int (length cs) + 1 < ?B" using Cons.prems(4) by linarith
  have "?B - int (length (c # cs)) = ?B - int (length cs) - 1" by simp
  then have b: "below t (?B - int (length cs) - 1)"
    using Cons.prems(5) by (simp only:)
  obtain n where n: "get_next_id t = Inr n"
    using numeric_next_id [OF below_numeric [OF b]] by blast
  have "1 \<le> ?B - int (length cs) - 1" using len by linarith
  then have le: "n \<le> ?B - int (length cs) - 1" by (rule get_next_id_le [OF n b])
  have "\<bar>n\<bar> < ?B" using le get_next_id_bound [OF n] by linarith
  then have pn: "py_int (str_int n) = Some n" by (rule py_int_small)
  let ?x = "new_task now n d"
  have t1: "t1 = t\<lparr>tasks := tasks t @ [(str_int n, ?x)]\<rparr>"
    using add_task_assigns(1) [OF n a] .
  have m1: "members (tasks t1)" using Cons.prems(3) t1 by (simp add: members_def new_task_def)
  have "below t (?B - int (length cs))" using b by (auto simp: below_iff)
  then have b1: "below t1 (?B - int (length cs))"
    using t1 pn le by (simp add: below_append)
  have l1: "int (length cs) < ?B" using len by linarith
  have "str_int n \<notin> fst ` set (tasks t)"
    using get_next_id_below [OF n] by (rule below_fresh)
  then have "AList.update (str_int n) ?x (tasks t) = tasks t @ [(str_int n, ?x)]"
    by (rule update_fresh)
  then have "add_task now d t fs = save_and_return ?x t1 fs"
    using n t1 by (simp add: add_task_def Task_init_new py_str_int)
  then have sr: "save_and_return ?x t1 fs = (r0, t1, fs1)" using a by simp
  have "r0 = Inr ?x" using save_and_return_members [OF m1, of ?x fs] by (simp add: sr)
  then have "added rs = ?x # added rs1" using rs r by (simp add: reply_of_def)
  then show ?case using Cons.IH [OF adds q m1 l1 b1] by simp
qed

lemma distinct_map_comp: "distinct (map (f \<circ> g) xs) \<Longrightarrow> distinct (map g xs)"
  by (induction xs) auto

lemma is_int_id: "is_int (id_of (x::Task)) \<Longrightarrow> id_of x = PyInt (int_id x)"
  by (cases "id_of x") (simp_all add: int_id_def)

lemma py_lt_int_ids:
  "is_int (id_of (x::Task)) \<Longrightarrow> is_int (id_of (y::Task)) \<Longrightarrow>
   py_lt (id_of y) (id_of x) = Some (int_id y < int_id x)"
  using is_int_id [of x] is_int_id [of y] by simp

lemma all_comparable_ints:
  "list_all (\<lambda>x::Task. is_int (id_of x)) xs \<Longrightarrow> all_comparable (map id_of xs)"
proof (induction xs)
  case Nil
  show ?case by simp
next
  case (Cons x xs)
  have "py_lt (id_of x) (id_of y) \<noteq> None" if "y \<in> set xs" for y
    using Cons.prems that py_lt_int_ids [of y x] by (auto simp: list_all_iff)
  then show ?case using Cons by (auto simp: list_all_iff)
qed

lemma insert_sorted_ints:
  "is_int (id_of (x::Task)) \<Longrightarrow> list_all (\<lambda>x. is_int (id_of x)) ys \<Longrightarrow>
   insert_sorted id_of x ys = insort_key int_id x ys"
  by (induction ys) (auto simp: py_lt_int_ids)

lemma foldr_insert_sorted_ints:
  "list_all (\<lambda>x::Task. is_int (id_of x)) xs \<Longrightarrow>
   foldr (insert_sorted id_of) xs [] = sort_key int_id xs"
proof (induction xs)
  case Nil
  show ?case by simp
next
  case (Cons x xs)
  then have IH: "foldr (insert_sorted id_of) xs [] = sort_key int_id xs" by simp
  have "list_all (\<lambda>x. is_int (id_of x)) (sort_key int_id xs)"
    using Cons.prems by (simp add: list_all_iff)
  then show ?case using Cons.prems IH by (simp add: insert_sorted_ints sort_key_def)
qed

lemma py_sorted_ints:
  "list_all (\<lambda>x::Task. is_int (id_of x)) xs \<Longrightarrow> py_sorted id_of xs = Inr (sort_key int_id xs)"
  by (simp add: py_sorted_def all_comparable_ints foldr_insert_sorted_ints)

lemma status_eq_Member: "status_eq s (Member m) = (s = Member m)"
  by (cases s) auto

lemma status_of_arg_value: "status_of_arg (Plain (PyStr (status_value m))) = Inr (Member m)"
  by (cases m) simp_all

lemma id_less_int: "is_int (id_of a) \<Longrightarrow> is_int (id_of b) \<Longrightarrow> id_less a b = (int_id a < int_id b)"
  using is_int_id [of a] is_int_id [of b] by (simp add: id_less_def)

lemma sorted_wrt_id_less:
  assumes "list_all (\<lambda>x. is_int (id_of x)) xs" and "sorted_wrt (<) (map int_id xs)"
  shows "sorted_wrt id_less xs"
proof -
  have s: "sorted_wrt (\<lambda>a b. int_id a < int_id b) xs"
    using assms(2) by (simp add: sorted_wrt_map)
  have "id_less a b" if "a \<in> set xs" "b \<in> set xs" "int_id a < int_id b" for a b
    using that assms(1) by (simp add: list_all_iff id_less_int)
  then show ?thesis using s by (rule sorted_wrt_mono_rel)
qed

lemma store_inv_distinct_ids: "store_inv t \<Longrightarrow> distinct (map (id_of \<circ> snd) (tasks t))"
proof -
  assume inv: "store_inv t"
  then have eq: "map fst (tasks t) = map (py_str \<circ> (id_of \<circ> snd)) (tasks t)"
    by (auto simp: store_inv_def held_ok_def list_all_iff)
  have "distinct (map fst (tasks t))" using inv by (simp add: store_inv_def)
  then have "distinct (map (py_str \<circ> (id_of \<circ> snd)) (tasks t))" by (simp only: eq)
  then show ?thesis by (rule distinct_map_comp)
qed

lemma sort_key_unique:
  fixes f :: "'a \<Rightarrow> int"
  assumes "inj_on f (set xs)" and "distinct xs" and "distinct ys" and "set ys = set xs"
  shows "sort_key f ys = sort_key f xs"
proof -
  have i: "inj_on f (set (sort_key f ys) \<union> set (sort_key f xs))" using assms(1,4) by simp
  have "distinct (map f (sort_key f ys))" "distinct (map f (sort_key f xs))"
    using assms by (simp_all add: distinct_map)
  moreover have "set (map f (sort_key f ys)) = set (map f (sort_key f xs))"
    using assms(4) by simp
  ultimately have "map f (sort_key f ys) = map f (sort_key f xs)"
    by (intro sorted_distinct_set_unique) simp_all
  then show ?thesis using i by (rule map_inj_on)
qed

lemma int_ids_distinct:
  assumes "store_inv t" and "int_ids (tasks t)"
  shows "distinct (map snd (tasks t))" and "inj_on int_id (snd ` set (tasks t))"
proof -
  define all where "all = map snd (tasks t)"
  have ints: "\<forall>x \<in> set all. id_of x = PyInt (int_id x)"
    using assms(2) by (auto simp: all_def int_ids_def list_all_iff intro!: is_int_id)
  have a: "distinct (map id_of all)"
    using store_inv_distinct_ids [OF assms(1)] by (simp add: all_def)
  have eq: "map id_of all = map (PyInt \<circ> int_id) all" using ints by simp
  from a have "distinct (map (PyInt \<circ> int_id) all)" by (simp only: eq)
  then have "distinct (map int_id all)" by (rule distinct_map_comp)
  then have "distinct all \<and> inj_on int_id (set all)" by (simp add: distinct_map)
  then show "distinct (map snd (tasks t))" and "inj_on int_id (snd ` set (tasks t))"
    by (simp_all add: all_def)
qed

lemma status_value_cases: "status_value m \<in> {''todo'', ''in-progress'', ''done''}"
  by (cases m) simp_all

lemma to_dict_Inr:
  assumes "to_dict task = Inr r"
  shows "\<exists>m. status task = Member m \<and>
           r = [(''id'', id_of task), (''description'', description task),
                (''status'', PyStr (status_value m)), (''created_at'', created_at task)]"
  using assms by (cases "status task") (auto simp: to_dict_def)

lemma load_entry_to_dict:
  assumes "to_dict task = Inr r" and "py_truthy (created_at task)"
  shows "load_entry now (PyDict r) = Inr task"
proof -
  from to_dict_Inr [OF assms(1)] obtain m where "status task = Member m" by blast
  then have "is_member (status task)" by simp
  from to_dict_member [OF this] obtain d where "to_dict task = Inr d" "PyDict d = record_of task"
    by blast
  then have "PyDict r = record_of task" using assms(1) by simp
  then show ?thesis
    using load_entry_record_of [OF \<open>is_member (status task)\<close> assms(2)] by simp
qed

lemma below_weaken: "below (t\<lparr>tasks := tasks t @ [(k, x)]\<rparr>) n \<Longrightarrow> below t n"
  by (simp add: below_append)

lemma run_adds_appends:
  assumes "list_all is_add cs" and "run cs (t, fs) = (rs, t', fs')"
  shows "\<exists>zs. tasks t' = tasks t @ zs \<and>
              (\<forall>z \<in> set zs. \<exists>m. id_of (snd z) = PyInt m \<and> below t m) \<and>
              sorted_wrt id_less (map snd zs) \<and> set (added rs) \<subseteq> snd ` set zs"
  using assms
proof (induction cs arbitrary: t fs rs)
  case Nil
  then show ?case by simp
next
  case (Cons c cs)
  from Cons.prems(1) obtain now d where c: "c = Add now d" by (cases c) auto
  from Cons.prems(1) have adds: "list_all is_add cs" by simp
  obtain r t1 fs1 where p: "perform c (t, fs) = (r, t1, fs1)" by (cases "perform c (t, fs)")
  obtain rs1 where q: "run cs (t1, fs1) = (rs1, t', fs')" and rs: "rs = r # rs1"
    using Cons.prems(2) p by (auto split: prod.splits)
  from perform_add [OF p [unfolded c]] obtain r0
    where a: "add_task now d t fs = (r0, t1, fs1)" and r: "r = reply_of Added r0" by blast
  from Cons.IH [OF adds q] obtain zs where zs: "tasks t' = tasks t1 @ zs"
    and above: "\<forall>z \<in> set zs. \<exists>m. id_of (snd z) = PyInt m \<and> below t1 m"
    and sorted: "sorted_wrt id_less (map snd zs)"
    and sub: "set (added rs1) \<subseteq> snd ` set zs"
    by blast
  show ?case
  proof (cases "get_next_id t")
    case (Inl e)
    then have "r0 = Inl e" "t1 = t" using a by (simp_all add: add_task_raises)
    then have "added rs = added rs1" using rs r by (simp add: reply_of_def)
    then show ?thesis using zs above sorted sub \<open>t1 = t\<close> by auto
  next
    case (Inr n)
    let ?x = "new_task now n d"
    have t1: "t1 = t\<lparr>tasks := tasks t @ [(str_int n, ?x)]\<rparr>"
      using add_task_assigns(1) [OF Inr a] .
    have r0: "r0 = Inr ?x \<or> r0 = Inl AttributeError"
      using add_task_assigns(2) [OF Inr a] .
    have b: "below t n" using Inr by (rule get_next_id_below)
    let ?zs = "(str_int n, ?x) # zs"
    have 1: "tasks t' = tasks t @ ?zs" using zs t1 by simp
    have after: "\<exists>m. id_of (snd z) = PyInt m \<and> below t m \<and> n < m" if "z \<in> set zs" for z
    proof -
      from above that obtain m where m: "id_of (snd z) = PyInt m" "below t1 m" by blast
      then show ?thesis using t1 by (auto simp: below_append dest: py_int_str_int_Some)
    qed
    have 2: "\<forall>z \<in> set ?zs. \<exists>m. id_of (snd z) = PyInt m \<and> below t m"
      using after b by (auto simp: new_task_def)
    have "id_less ?x (snd z)" if "z \<in> set zs" for z
      using after [OF that] by (auto simp: id_less_def new_task_def)
    then have 3: "sorted_wrt id_less (map snd ?zs)" using sorted by simp
    have "set (added rs) \<subseteq> insert ?x (set (added rs1))"
      using rs r r0 by (auto simp: reply_of_def)
    then have 4: "set (added rs) \<subseteq> snd ` set ?zs" using sub by auto
    show ?thesis using 1 2 3 4 by blast
  qed
qed



lemma save_and_return_frame:
  assumes "save_and_return r t fs = (res, t', fs')"
  shows "t' = t \<and> (\<forall>name. name \<noteq> filename t \<longrightarrow> fs' name = fs name) \<and>
         (res = Inr r \<and> persisted t fs' \<or> (\<exists>e. res = Inl e) \<and> fs' = fs)"
proof (cases "dump_data (tasks t)")
  case (Inl e)
  then show ?thesis using assms by (auto simp: save_and_return_def save_tasks_def)
next
  case (Inr data)
  then show ?thesis using assms
    by (auto simp: save_and_return_def save_tasks_def persisted_def)
qed

lemma saved_frame:
  assumes "save_and_return x (t\<lparr>tasks := ts\<rparr>) fs = (res, t', fs')"
    and "r = reply_of f res" and "succeeded (f x)"
  shows "filename t' = filename t \<and> (\<forall>name. name \<noteq> filename t \<longrightarrow> fs' name = fs name) \<and>
         (succeeded r \<longrightarrow> persisted t' fs') \<and> (\<not> succeeded r \<longrightarrow> fs' = fs)"
  using save_and_return_frame [OF assms(1)] assms(2,3)
  by (auto simp: reply_of_def)

lemma mutation_frame:
  assumes "perform c (t, fs) = (r, t', fs')" and "is_mutation c"
  shows "filename t' = filename t \<and> (\<forall>name. name \<noteq> filename t \<longrightarrow> fs' name = fs name) \<and>
         (succeeded r \<longrightarrow> persisted t' fs') \<and> (\<not> succeeded r \<longrightarrow> fs' = fs)"
proof (cases c)
  case (Add now d)
  obtain res where a: "add_task now d t fs = (res, t', fs')" and r: "r = reply_of Added res"
    using assms(1) Add by (auto split: prod.splits)
  show ?thesis
  proof (cases "get_next_id t")
    case (Inl e)
    then show ?thesis using a r by (auto simp: add_task_def reply_of_def)
  next
    case (Inr n)
    have "save_and_return (new_task now n d)
            (t\<lparr>tasks := AList.update (py_str (PyInt n)) (new_task now n d) (tasks t)\<rparr>) fs
          = (res, t', fs')"
      using a Inr by (simp add: add_task_def Task_init_new)
    then show ?thesis using r by (rule saved_frame) simp
  qed
next
  case (Update i d)
  obtain res where a: "update_task i d t fs = (res, t', fs')" and r: "r = reply_of Flag res"
    using assms(1) Update by (auto split: prod.splits)
  show ?thesis
  proof (cases "get_task i t")
    case None
    then show ?thesis using a r by (auto simp: update_task_def reply_of_def)
  next
    case (Some x)
    have "save_and_return True
            (t\<lparr>tasks := AList.update (py_str i) (update_description d x) (tasks t)\<rparr>) fs
          = (res, t', fs')"
      using a Some by (simp add: update_task_def)
    then show ?thesis using r by (rule saved_frame) simp
  qed
next
  case (Delete i)
  obtain res where a: "delete_task i t fs = (res, t', fs')" and r: "r = reply_of Flag res"
    using assms(1) Delete by (auto split: prod.splits)
  show ?thesis
  proof (cases "py_str i \<in> set (map fst (tasks t))")
    case False
    then show ?thesis using a r by (auto simp: delete_task_def reply_of_def)
  next
    case True
    have "save_and_return True (t\<lparr>tasks := AList.delete (py_str i) (tasks t)\<rparr>) fs
          = (res, t', fs')"
      using a True by (simp add: delete_task_def)
    then show ?thesis using r by (rule saved_frame) simp
  qed
next
  case (MarkInProgress i)
  obtain res where a: "mark_in_progress i t fs = (res, t', fs')" and r: "r = reply_of Flag res"
    using assms(1) MarkInProgress by (auto split: prod.splits)
  show ?thesis
  proof (cases "get_task i t")
    case None
    then show ?thesis using a r by (auto simp: mark_in_progress_def reply_of_def)
  next
    case (Some x)
    have "save_and_return True
            (t\<lparr>tasks := AList.update (py_str i) (Task_mark_in_progress x) (tasks t)\<rparr>) fs
          = (res, t', fs')"
      using a Some by (simp add: mark_in_progress_def)
    then show ?thesis using r by (rule saved_frame) simp
  qed
next
  case (MarkDone i)
  obtain res where a: "mark_done i t fs = (res, t', fs')" and r: "r = reply_of Flag res"
    using assms(1) MarkDone by (auto split: prod.splits)
  show ?thesis
  proof (cases "get_task i t")
    case None
    then show ?thesis using a r by (auto simp: mark_done_def reply_of_def)
  next
    case (Some x)
    have "save_and_return True
            (t\<lparr>tasks := AList.update (py_str i) (Task_mark_done x) (tasks t)\<rparr>) fs
          = (res, t', fs')"
      using a Some by (simp add: mark_done_def)
    then show ?thesis using r by (rule saved_frame) simp
  qed
qed (use assms(2) in simp_all)

lemma saved_members:
  assumes "save_and_return x (t\<lparr>tasks := ts\<rparr>) fs = (res, t', fs')" and "members ts"
  shows "res = Inr x \<and> tasks t' = ts"
proof -
  have "fst (save_and_return x (t\<lparr>tasks := ts\<rparr>) fs) = Inr x"
    using assms(2) by (intro save_and_return_members) simp
  moreover have "t' = t\<lparr>tasks := ts\<rparr>" using assms(1) by (rule save_and_return_store)
  ultimately show ?thesis using assms(1) by simp
qed

lemma update_effect:
  assumes "perform (Update i d) (t, fs) = (r, t', fs')"
    and "members (tasks t)" and "get_task i t = Some x"
  shows "r = Flag True \<and> get_task i t' = Some (update_description d x) \<and>
         (\<forall>j. py_str j \<noteq> py_str i \<longrightarrow> get_task j t' = get_task j t)"
proof -
  obtain res where a: "update_task i d t fs = (res, t', fs')" and r: "r = reply_of Flag res"
    using assms(1) by (auto split: prod.splits)
  let ?ts = "AList.update (py_str i) (update_description d x) (tasks t)"
  have s: "save_and_return True (t\<lparr>tasks := ?ts\<rparr>) fs = (res, t', fs')"
    using a assms(3) by (simp add: update_task_def)
  have "is_member (status x)" using members_lookup [OF assms(2,3)] .
  then have "members ?ts"
    using assms(2) by (intro members_update) (simp_all add: update_description_def)
  from saved_members [OF s this] show ?thesis
    using r by (simp add: reply_of_def get_task_def update_conv')
qed

lemma mark_in_progress_effect:
  assumes "perform (MarkInProgress i) (t, fs) = (r, t', fs')"
    and "members (tasks t)" and "get_task i t = Some x"
  shows "r = Flag True \<and> get_task i t' = Some (Task_mark_in_progress x) \<and>
         (\<forall>j. py_str j \<noteq> py_str i \<longrightarrow> get_task j t' = get_task j t)"
proof -
  obtain res where a: "mark_in_progress i t fs = (res, t', fs')" and r: "r = reply_of Flag res"
    using assms(1) by (auto split: prod.splits)
  let ?ts = "AList.update (py_str i) (Task_mark_in_progress x) (tasks t)"
  have s: "save_and_return True (t\<lparr>tasks := ?ts\<rparr>) fs = (res, t', fs')"
    using a assms(3) by (simp add: mark_in_progress_def)
  have "members ?ts"
    using assms(2) by (intro members_update) (simp_all add: Task_mark_in_progress_def)
  from saved_members [OF s this] show ?thesis
    using r by (simp add: reply_of_def get_task_def update_conv')
qed

lemma mark_done_effect:
  assumes "perform (MarkDone i) (t, fs) = (r, t', fs')"
    and "members (tasks t)" and "get_task i t = Some x"
  shows "r = Flag True \<and> get_task i t' = Some (Task_mark_done x) \<and>
         (\<forall>j. py_str j \<noteq> py_str i \<longrightarrow> get_task j t' = get_task j t)"
proof -
  obtain res where a: "mark_done i t fs = (res, t', fs')" and r: "r = reply_of Flag res"
    using assms(1) by (auto split: prod.splits)
  let ?ts = "AList.update (py_str i) (Task_mark_done x) (tasks t)"
  have s: "save_and_return True (t\<lparr>tasks := ?ts\<rparr>) fs = (res, t', fs')"
    using a assms(3) by (simp add: mark_done_def)
  have "members ?ts"
    using assms(2) by (intro members_update) (simp_all add: Task_mark_done_def)
  from saved_members [OF s this] show ?thesis
    using r by (simp add: reply_of_def get_task_def update_conv')
qed

lemma delete_effect:
  assumes "perform (Delete i) (t, fs) = (r, t', fs')"
    and "members (tasks t)" and "get_task i t = Some x"
  shows "r = Flag True \<and> get_task i t' = None \<and>
         (\<forall>j. py_str j \<noteq> py_str i \<longrightarrow> get_task j t' = get_task j t)"
proof -
  obtain res where a: "delete_task i t fs = (res, t', fs')" and r: "r = reply_of Flag res"
    using assms(1) by (auto split: prod.splits)
  let ?ts = "AList.delete (py_str i) (tasks t)"
  have "py_str i \<in> set (map fst (tasks t))" using assms(3) held_key [of i t] by simp
  then have s: "save_and_return True (t\<lparr>tasks := ?ts\<rparr>) fs = (res, t', fs')"
    using a by (simp add: delete_task_def)
  have "members ?ts" using assms(2) by (rule members_delete)
  from saved_members [OF s this] show ?thesis
    using r by (simp add: reply_of_def get_task_def delete_conv')
qed

lemma add_effect:
  assumes "perform (Add now d) (t, fs) = (r, t', fs')"
    and "members (tasks t)" and "get_next_id t = Inr n"
  shows "r = Added (new_task now n d) \<and> get_task (PyInt n) t' = Some (new_task now n d) \<and>
         (\<forall>j. py_str j \<noteq> py_str (PyInt n) \<longrightarrow> get_task j t' = get_task j t)"
proof -
  obtain res where a: "add_task now d t fs = (res, t', fs')" and r: "r = reply_of Added res"
    using assms(1) by (auto split: prod.splits)
  let ?ts = "AList.update (py_str (PyInt n)) (new_task now n d) (tasks t)"
  have s: "save_and_return (new_task now n d) (t\<lparr>tasks := ?ts\<rparr>) fs = (res, t', fs')"
    using a assms(3) by (simp add: add_task_def Task_init_new)
  have "members ?ts"
    using assms(2) by (intro members_update) (simp_all add: new_task_def)
  from saved_members [OF s this] show ?thesis
    using r by (simp add: reply_of_def get_task_def update_conv')
qed

section \<open>Evaluation of the examples\<close>

lemma str_1: "str_int 1 = ''1''"
  by (simp add: str_int_def dec_nat.simps digit_char_def)

lemma str_2: "str_int 2 = ''2''"
  by (simp add: str_int_def dec_nat.simps digit_char_def)

lemma int_1: "py_int ''1'' = Some 1"
  using py_int_str_int [of 1]
  by (simp add: str_1 dec_nat.simps digit_char_def int_max_str_digits_def)

lemma int_2: "py_int ''2'' = Some 2"
  using py_int_str_int [of 2]
  by (simp add: str_2 dec_nat.simps digit_char_def int_max_str_digits_def)

lemma iso_morning: "isoformat morning = ''2025-12-01T09:30:00''"
  by (simp add: isoformat_def morning_def zfill_def dec_nat.simps digit_char_def)

lemma null_status_store_eq:
  "null_status_store =
     (\<lparr>filename = ''tasks.json'',
       tasks = [(''1'', \<lparr>id_of = PyInt 1, description = PyStr ''b'', status = Plain PyNone,
                         created_at = PyStr ''2025-12-01T09:30:00''\<rparr>)]\<rparr>,
      null_status_file)"
  by (simp add: null_status_store_def null_status_file_def load_tasks_def load_entry_def
      Task_init_def reply_of_def update_task_def get_task_def py_str_def str_1
      update_description_def save_and_return_def save_tasks_def to_dict_def)

lemma run_Cons_snd: "snd (run (c # cs) s) = snd (run cs (snd (perform c s)))"
proof -
  obtain r s' where p: "perform c s = (r, s')" by (cases "perform c s")
  obtain rs s'' where q: "run cs s' = (rs, s'')" by (cases "run cs s'")
  show ?thesis using p q by simp
qed

lemma reach_run: "reach s \<Longrightarrow> reach (snd (run cs s))"
proof (induction cs arbitrary: s)
  case Nil
  then show ?case by simp
next
  case (Cons c cs)
  have "reach (snd (perform c s))" using Cons.prems by (rule reach.call)
  then have "reach (snd (run cs (snd (perform c s))))" by (rule Cons.IH)
  then show ?case by (simp only: run_Cons_snd)
qed

lemma reach_no_tasks: "reach no_tasks"
  unfolding no_tasks_def by (rule reach.fresh)

lemma two_tasks_eq:
  "fst two_tasks =
     \<lparr>filename = ''tasks.json'',
      tasks = [(''1'', \<lparr>id_of = PyInt 1, description = PyStr ''buy milk'', status = Member TODO,
                        created_at = PyStr ''2025-12-01T09:30:00''\<rparr>),
               (''2'', \<lparr>id_of = PyInt 2, description = PyStr ''write report'', status = Member TODO,
                        created_at = PyStr ''2025-12-01T09:30:00''\<rparr>)]\<rparr>"
  by (simp add: two_tasks_def no_tasks_def add_task_def get_next_id_def Task_init_def
      iso_morning py_str_def str_1 str_2 int_1 save_and_return_def save_tasks_def to_dict_def
      reply_of_def)

lemma str_3: "str_int 3 = ''3''"
  by (simp add: str_int_def dec_nat.simps digit_char_def)

lemma first_add:
  "fst (perform (Add morning (PyStr ''buy milk'')) no_tasks) =
     Added \<lparr>id_of = PyInt 1, description = PyStr ''buy milk'', status = Member TODO,
            created_at = PyStr ''2025-12-01T09:30:00''\<rparr>"
  by (simp add: no_tasks_def add_task_def get_next_id_def Task_init_def iso_morning py_str_def
      str_1 save_and_return_def save_tasks_def to_dict_def reply_of_def)

lemma third_add:
  "fst (add_task morning (PyStr ''call'') (fst two_tasks) (snd two_tasks)) =
     Inr \<lparr>id_of = PyInt 3, description = PyStr ''call'', status = Member TODO,
          created_at = PyStr ''2025-12-01T09:30:00''\<rparr>"
  by (simp add: two_tasks_eq add_task_def get_next_id_def Task_init_def iso_morning py_str_def
      str_3 int_1 int_2 save_and_return_def save_tasks_def to_dict_def)

lemma two_adds:
  "fst (run [Add morning (PyStr ''buy milk''), Add morning (PyStr ''write report'')] no_tasks) =
     [Added \<lparr>id_of = PyInt 1, description = PyStr ''buy milk'', status = Member TODO,
             created_at = PyStr ''2025-12-01T09:30:00''\<rparr>,
      Added \<lparr>id_of = PyInt 2, description = PyStr ''write report'', status = Member TODO,
             created_at = PyStr ''2025-12-01T09:30:00''\<rparr>]"
  by (simp add: no_tasks_def add_task_def get_next_id_def Task_init_def iso_morning py_str_def
      str_1 str_2 int_1 save_and_return_def save_tasks_def to_dict_def reply_of_def)

lemma unordered_store_eq:
  "fst unordered_store =
     \<lparr>filename = ''tasks.json'',
      tasks = [(''2'', \<lparr>id_of = PyInt 2, description = PyStr ''b'', status = Member DONE,
                        created_at = PyStr ''2025-12-01T09:30:00''\<rparr>),
               (''1'', \<lparr>id_of = PyInt 1, description = PyStr ''a'', status = Member TODO,
                        created_at = PyStr ''2025-12-01T09:30:00''\<rparr>),
               (''3'', \<lparr>id_of = PyInt 3, description = PyStr ''c'', status = Member DONE,
                        created_at = PyStr ''2025-12-01T09:30:00''\<rparr>)]\<rparr>"
  by (simp add: unordered_store_def unordered_file_def load_tasks_def load_entry_def
      Task_init_def py_str_def str_1 str_2 str_3 reply_of_def)

lemma string_ids_store_eq:
  "fst string_ids_store =
     \<lparr>filename = ''tasks.json'',
      tasks = [(''9'', \<lparr>id_of = PyStr ''9'', description = PyStr ''a'', status = Member TODO,
                        created_at = PyStr ''2025-12-01T09:30:00''\<rparr>),
               (''10'', \<lparr>id_of = PyStr ''10'', description = PyStr ''b'', status = Member TODO,
                         created_at = PyStr ''2025-12-01T09:30:00''\<rparr>)]\<rparr>"
  by (simp add: string_ids_store_def string_ids_file_def load_tasks_def load_entry_def
      Task_init_def py_str_def reply_of_def)


lemma update_two_tasks:
  "perform (Update (PyInt 1) (PyStr ''buy bread'')) (fst two_tasks, snd two_tasks) =
     (Flag True,
      \<lparr>filename = ''tasks.json'',
       tasks = [(''1'', \<lparr>id_of = PyInt 1, description = PyStr ''buy bread'', status = Member TODO,
                         created_at = PyStr ''2025-12-01T09:30:00''\<rparr>),
                (''2'', \<lparr>id_of = PyInt 2, description = PyStr ''write report'', status = Member TODO,
                         created_at = PyStr ''2025-12-01T09:30:00''\<rparr>)]\<rparr>,
      (snd two_tasks)(''tasks.json'' \<mapsto> Document (PyDict
        [(''1'', PyDict [(''id'', PyInt 1), (''description'', PyStr ''buy bread''),
                        (''status'', PyStr ''todo''),
                        (''created_at'', PyStr ''2025-12-01T09:30:00'')]),
         (''2'', PyDict [(''id'', PyInt 2), (''description'', PyStr ''write report''),
                        (''status'', PyStr ''todo''),
                        (''created_at'', PyStr ''2025-12-01T09:30:00'')])])))"
  by (simp add: two_tasks_eq update_task_def get_task_def py_str_def str_1
      update_description_def save_and_return_def save_tasks_def to_dict_def reply_of_def)

lemma mark_done_two_tasks:
  "perform (MarkDone (PyInt 2)) (fst two_tasks, snd two_tasks) =
     (Flag True,
      \<lparr>filename = ''tasks.json'',
       tasks = [(''1'', \<lparr>id_of = PyInt 1, description = PyStr ''buy milk'', status = Member TODO,
                         created_at = PyStr ''2025-12-01T09:30:00''\<rparr>),
                (''2'', \<lparr>id_of = PyInt 2, description = PyStr ''write report'', status = Member DONE,
                         created_at = PyStr ''2025-12-01T09:30:00''\<rparr>)]\<rparr>,
      (snd two_tasks)(''tasks.json'' \<mapsto> Document (PyDict
        [(''1'', PyDict [(''id'', PyInt 1), (''description'', PyStr ''buy milk''),
                        (''status'', PyStr ''todo''),
                        (''created_at'', PyStr ''2025-12-01T09:30:00'')]),
         (''2'', PyDict [(''id'', PyInt 2), (''description'', PyStr ''write report''),
                        (''status'', PyStr ''done''),
                        (''created_at'', PyStr ''2025-12-01T09:30:00'')])])))"
  by (simp add: two_tasks_eq mark_done_def get_task_def py_str_def str_1 str_2
      Task_mark_done_def save_and_return_def save_tasks_def to_dict_def reply_of_def)

lemma delete_two_tasks:
  "perform (Delete (PyInt 1)) (fst two_tasks, snd two_tasks) =
     (Flag True,
      \<lparr>filename = ''tasks.json'',
       tasks = [(''2'', \<lparr>id_of = PyInt 2, description = PyStr ''write report'', status = Member TODO,
                         created_at = PyStr ''2025-12-01T09:30:00''\<rparr>)]\<rparr>,
      (snd two_tasks)(''tasks.json'' \<mapsto> Document (PyDict
        [(''2'', PyDict [(''id'', PyInt 2), (''description'', PyStr ''write report''),
                        (''status'', PyStr ''todo''),
                        (''created_at'', PyStr ''2025-12-01T09:30:00'')])])))"
  by (simp add: two_tasks_eq delete_task_def py_str_def str_1 str_2
      save_and_return_def save_tasks_def to_dict_def reply_of_def)

lemma untyped_store_eq:
  "fst untyped_store =
     \<lparr>filename = ''tasks.json'',
      tasks = [(''nine'', \<lparr>id_of = PyStr ''nine'', description = PyInt 7, status = Member DONE,
                           created_at = PyBool True\<rparr>)]\<rparr>"
  by (simp add: untyped_store_def untyped_file_def load_tasks_def load_entry_def
      Task_init_def py_str_def reply_of_def)

section \<open>The store of TaskTracker.py\<close>

text \<open>
  The two methods of the store of TaskTracker.py that touch the file raise on every call:
  \<^verbatim>\<open>save_task\<close> after it has emptied the file, \<^verbatim>\<open>load_tasks\<close> before it reads
  anything. Its constructor calls \<^verbatim>\<open>load_tasks\<close>, so no store of this file comes to
  exist.
\<close>

lemma save_task_raises:
  "save_task t fs = (Inl TypeError, fs(filename_tt t \<mapsto> Unparseable))"
  by (simp add: save_task_def json_dumps_def)

lemma load_tasks_tt_raises: "load_tasks_tt clock t fs = (Inl AttributeError, t)"
  by (simp add: load_tasks_tt_def os_path_exist_def)

section \<open>Uniqueness of ids\<close>




section \<open>Saving and loading again\<close>

text \<open>
  C1, as amended. For every state that a store reaches in which the status of every held
  task is a member of \<open>TaskStatus\<close>, \<^verbatim>\<open>save_tasks\<close> returns, and a store built
  afresh on the same file name then holds the same tasks under the same keys in the same
  order: the same ids, descriptions, statuses and creation times.
\<close>

theorem save_then_load:
  assumes "reach (t, fs)" and "members (tasks t)"
  shows "fst (save_tasks t fs) = Inr () \<and>
         TaskTracker_init (filename t) clock (snd (save_tasks t fs)) = Inr t"
proof -
  let ?data = "map (\<lambda>(k, task). (k, record_of task)) (tasks t)"
  let ?fs = "fs(filename t \<mapsto> Document (PyDict ?data))"
  have inv: "store_inv t" using reach_store_inv [OF assms(1)] by simp
  have saved: "save_tasks t fs = (Inr (), ?fs)" using assms(2) by (rule save_tasks_members)
  have d: "distinct (map fst ([] @ tasks t))" using inv by (simp add: store_inv_def)
  have ok: "list_all (\<lambda>(k, task). k = py_str (id_of task) \<and> py_truthy (created_at task)
                     \<and> is_member (status task)) (tasks t)"
    using inv assms(2) by (auto simp: store_inv_def held_ok_def members_def list_all_iff)
  have "load_entries clock 0 ?data [] = (None, [] @ tasks t)"
    using d ok by (rule load_entries_records)
  then have "load_tasks clock \<lparr>filename = filename t, tasks = []\<rparr> ?fs
             = (Inr (), \<lparr>filename = filename t, tasks = tasks t\<rparr>)"
    by (simp add: load_tasks_def)
  then have "TaskTracker_init (filename t) clock ?fs = Inr t"
    by (simp add: TaskTracker_init_def)
  then show ?thesis using saved by simp
qed

text \<open>The store after two calls of \<^verbatim>\<open>add_task\<close> is saved and loaded back.\<close>

theorem save_then_load_witness:
  "reach two_tasks \<and> members (tasks (fst two_tasks)) \<and>
   fst (save_tasks (fst two_tasks) (snd two_tasks)) = Inr () \<and>
   TaskTracker_init ''tasks.json'' (\<lambda>i. morning)
     (snd (save_tasks (fst two_tasks) (snd two_tasks))) = Inr (fst two_tasks)"
proof -
  have "reach two_tasks"
    unfolding two_tasks_def by (rule reach_run [OF reach_no_tasks])
  then have r: "reach (fst two_tasks, snd two_tasks)" by simp
  have m: "members (tasks (fst two_tasks))"
    by (simp add: two_tasks_eq members_def)
  have f: "filename (fst two_tasks) = ''tasks.json''"
    by (simp add: two_tasks_eq)
  show ?thesis
    using r m save_then_load [OF r m, of "\<lambda>i. morning"] by (simp add: f)
qed

text \<open>
  The claim fails for a store that has loaded a task whose status is \<^verbatim>\<open>null\<close> in
  the file: \<^verbatim>\<open>update_task\<close> changes the description in memory and then raises in
  \<^verbatim>\<open>save_tasks\<close>; from that state \<^verbatim>\<open>save_tasks\<close> raises again, the file keeps the
  old description, and a fresh store loads a collection that differs from the one held.
\<close>

theorem save_then_load_counterexample:
  "reach null_status_store \<and>
   fst (save_tasks (fst null_status_store) (snd null_status_store)) = Inl AttributeError \<and>
   TaskTracker_init ''tasks.json'' (\<lambda>i. morning)
     (snd (save_tasks (fst null_status_store) (snd null_status_store)))
   \<noteq> Inr (fst null_status_store)"
proof -
  have "reach null_status_store"
    unfolding null_status_store_def by (intro reach.call reach.fresh)
  moreover have "fst (save_tasks (fst null_status_store) (snd null_status_store)) = Inl AttributeError"
    by (simp add: null_status_store_eq save_tasks_def to_dict_def)
  moreover have "TaskTracker_init ''tasks.json'' (\<lambda>i. morning)
     (snd (save_tasks (fst null_status_store) (snd null_status_store)))
   \<noteq> Inr (fst null_status_store)"
    by (simp add: null_status_store_eq save_tasks_def to_dict_def TaskTracker_init_def
        null_status_file_def load_tasks_def load_entry_def Task_init_def py_str_def str_1)
  ultimately show ?thesis by blast
qed

section \<open>Ids that are absent and ids that are present\<close>




section \<open>What is written and what is not\<close>

text \<open>
  C5. A mutating call (\<^verbatim>\<open>add_task\<close>, \<^verbatim>\<open>update_task\<close>, \<^verbatim>\<open>delete_task\<close>,
  \<^verbatim>\<open>mark_in_progress\<close>, \<^verbatim>\<open>mark_done\<close>) writes no file but the backing file. If
  it succeeds, that is, returns the new task or \<^verbatim>\<open>True\<close>, then it leaves the backing
  file holding the serialized form of all the tasks that the store holds when the call
  returns; if it returns \<^verbatim>\<open>False\<close> or raises, it leaves the file system as it was.
  The calls do succeed and do change what is held and written: in a store whose statuses
  are all members of \<open>TaskStatus\<close>, the calls \<^verbatim>\<open>update_task\<close>,
  \<^verbatim>\<open>mark_in_progress\<close>, \<^verbatim>\<open>mark_done\<close> and \<^verbatim>\<open>delete_task\<close> with the id of a
  held task return \<^verbatim>\<open>True\<close>, and the task then found under that id has the new
  description, or the new status, or is found no more; and \<^verbatim>\<open>add_task\<close> returns a
  task with the supplied description that is found under its id, the one that
  \<^verbatim>\<open>get_next_id\<close> returns, when that id has no more digits than \<^verbatim>\<open>str\<close> writes;
  what is held under the other ids stays as it was.
  The reading calls (\<^verbatim>\<open>get_task\<close>, \<^verbatim>\<open>get_all_tasks\<close>,
  \<^verbatim>\<open>get_tasks_by_status\<close>) leave the store and the file system unchanged, whether
  they return or raise.
\<close>

theorem mutations_persist_reads_keep:
  assumes "perform c (t, fs) = (r, t', fs')"
  shows "(is_read c \<longrightarrow> t' = t \<and> fs' = fs) \<and>
         (is_mutation c \<longrightarrow>
            filename t' = filename t \<and> (\<forall>name. name \<noteq> filename t \<longrightarrow> fs' name = fs name)) \<and>
         (is_mutation c \<and> succeeded r \<longrightarrow> persisted t' fs') \<and>
         (is_mutation c \<and> \<not> succeeded r \<longrightarrow> fs' = fs) \<and>
         (members (tasks t) \<longrightarrow>
            (\<forall>i d x. c = Update i d \<and> get_task i t = Some x \<longrightarrow>
               r = Flag True \<and> get_task i t' = Some (update_description d x) \<and>
               (\<forall>j. py_str j \<noteq> py_str i \<longrightarrow> get_task j t' = get_task j t)) \<and>
            (\<forall>i x. c = MarkInProgress i \<and> get_task i t = Some x \<longrightarrow>
               r = Flag True \<and> get_task i t' = Some (Task_mark_in_progress x) \<and>
               (\<forall>j. py_str j \<noteq> py_str i \<longrightarrow> get_task j t' = get_task j t)) \<and>
            (\<forall>i x. c = MarkDone i \<and> get_task i t = Some x \<longrightarrow>
               r = Flag True \<and> get_task i t' = Some (Task_mark_done x) \<and>
               (\<forall>j. py_str j \<noteq> py_str i \<longrightarrow> get_task j t' = get_task j t)) \<and>
            (\<forall>i x. c = Delete i \<and> get_task i t = Some x \<longrightarrow>
               r = Flag True \<and> get_task i t' = None \<and>
               (\<forall>j. py_str j \<noteq> py_str i \<longrightarrow> get_task j t' = get_task j t)) \<and>
            (\<forall>now d n. c = Add now d \<and> get_next_id t = Inr n \<and> n < 10 ^ int_max_str_digits \<longrightarrow>
               (\<exists>x. r = Added x \<and> id_of x = PyInt n \<and> description x = d \<and>
                    get_task (PyInt n) t' = Some x \<and>
                    (\<forall>j. py_str j \<noteq> py_str (PyInt n) \<longrightarrow> get_task j t' = get_task j t))))"
proof -
  have 1: "is_read c \<longrightarrow> t' = t \<and> fs' = fs"
    using assms by (cases c) auto
  have 2: "is_mutation c \<longrightarrow>
            filename t' = filename t \<and> (\<forall>name. name \<noteq> filename t \<longrightarrow> fs' name = fs name)"
    using mutation_frame [OF assms] by blast
  have 3: "is_mutation c \<and> succeeded r \<longrightarrow> persisted t' fs'"
    using mutation_frame [OF assms] by blast
  have 4: "is_mutation c \<and> \<not> succeeded r \<longrightarrow> fs' = fs"
    using mutation_frame [OF assms] by blast
  have 5: "\<forall>i d x. c = Update i d \<and> get_task i t = Some x \<longrightarrow>
               r = Flag True \<and> get_task i t' = Some (update_description d x) \<and>
               (\<forall>j. py_str j \<noteq> py_str i \<longrightarrow> get_task j t' = get_task j t)"
    if "members (tasks t)"
    using update_effect [OF _ that] assms by blast
  have 6: "\<forall>i x. c = MarkInProgress i \<and> get_task i t = Some x \<longrightarrow>
               r = Flag True \<and> get_task i t' = Some (Task_mark_in_progress x) \<and>
               (\<forall>j. py_str j \<noteq> py_str i \<longrightarrow> get_task j t' = get_task j t)"
    if "members (tasks t)"
    using mark_in_progress_effect [OF _ that] assms by blast
  have 7: "\<forall>i x. c = MarkDone i \<and> get_task i t = Some x \<longrightarrow>
               r = Flag True \<and> get_task i t' = Some (Task_mark_done x) \<and>
               (\<forall>j. py_str j \<noteq> py_str i \<longrightarrow> get_task j t' = get_task j t)"
    if "members (tasks t)"
    using mark_done_effect [OF _ that] assms by blast
  have 8: "\<forall>i x. c = Delete i \<and> get_task i t = Some x \<longrightarrow>
               r = Flag True \<and> get_task i t' = None \<and>
               (\<forall>j. py_str j \<noteq> py_str i \<longrightarrow> get_task j t' = get_task j t)"
    if "members (tasks t)"
    using delete_effect [OF _ that] assms by blast
  have 9: "\<forall>now d n. c = Add now d \<and> get_next_id t = Inr n \<and> n < 10 ^ int_max_str_digits \<longrightarrow>
               (\<exists>x. r = Added x \<and> id_of x = PyInt n \<and> description x = d \<and>
                    get_task (PyInt n) t' = Some x \<and>
                    (\<forall>j. py_str j \<noteq> py_str (PyInt n) \<longrightarrow> get_task j t' = get_task j t))"
    if m: "members (tasks t)"
  proof (intro allI impI)
    fix now d n
    assume "c = Add now d \<and> get_next_id t = Inr n \<and> n < 10 ^ int_max_str_digits"
    then have c: "perform (Add now d) (t, fs) = (r, t', fs')" and n: "get_next_id t = Inr n"
      using assms by simp_all
    from add_effect [OF c m n]
    show "\<exists>x. r = Added x \<and> id_of x = PyInt n \<and> description x = d \<and>
              get_task (PyInt n) t' = Some x \<and>
              (\<forall>j. py_str j \<noteq> py_str (PyInt n) \<longrightarrow> get_task j t' = get_task j t)"
      by (simp add: new_task_def)
  qed
  show ?thesis
  proof (intro conjI impI)
    assume m: "members (tasks t)"
    show "\<forall>i d x. c = Update i d \<and> get_task i t = Some x \<longrightarrow>
               r = Flag True \<and> get_task i t' = Some (update_description d x) \<and>
               (\<forall>j. py_str j \<noteq> py_str i \<longrightarrow> get_task j t' = get_task j t)"
      by (rule 5 [OF m])
    show "\<forall>i x. c = MarkInProgress i \<and> get_task i t = Some x \<longrightarrow>
               r = Flag True \<and> get_task i t' = Some (Task_mark_in_progress x) \<and>
               (\<forall>j. py_str j \<noteq> py_str i \<longrightarrow> get_task j t' = get_task j t)"
      by (rule 6 [OF m])
    show "\<forall>i x. c = MarkDone i \<and> get_task i t = Some x \<longrightarrow>
               r = Flag True \<and> get_task i t' = Some (Task_mark_done x) \<and>
               (\<forall>j. py_str j \<noteq> py_str i \<longrightarrow> get_task j t' = get_task j t)"
      by (rule 7 [OF m])
    show "\<forall>i x. c = Delete i \<and> get_task i t = Some x \<longrightarrow>
               r = Flag True \<and> get_task i t' = None \<and>
               (\<forall>j. py_str j \<noteq> py_str i \<longrightarrow> get_task j t' = get_task j t)"
      by (rule 8 [OF m])
    show "\<forall>now d n. c = Add now d \<and> get_next_id t = Inr n \<and> n < 10 ^ int_max_str_digits \<longrightarrow>
               (\<exists>x. r = Added x \<and> id_of x = PyInt n \<and> description x = d \<and>
                    get_task (PyInt n) t' = Some x \<and>
                    (\<forall>j. py_str j \<noteq> py_str (PyInt n) \<longrightarrow> get_task j t' = get_task j t))"
      by (rule 9 [OF m])
  qed (use 1 2 3 4 in blast)+
qed

text \<open>
  On the store of two tasks: \<^verbatim>\<open>update_task\<close>, \<^verbatim>\<open>mark_done\<close> and
  \<^verbatim>\<open>delete_task\<close> return \<^verbatim>\<open>True\<close> and leave the file with the changed
  collection, and a listing changes nothing.
\<close>

theorem mutations_persist_reads_keep_witness:
  "members (tasks (fst two_tasks)) \<and>
   get_task (PyInt 1) (fst two_tasks) =
     Some \<lparr>id_of = PyInt 1, description = PyStr ''buy milk'', status = Member TODO,
           created_at = PyStr ''2025-12-01T09:30:00''\<rparr> \<and>
   fst (perform (Update (PyInt 1) (PyStr ''buy bread'')) two_tasks) = Flag True \<and>
   get_task (PyInt 1) (fst (snd (perform (Update (PyInt 1) (PyStr ''buy bread'')) two_tasks))) =
     Some \<lparr>id_of = PyInt 1, description = PyStr ''buy bread'', status = Member TODO,
           created_at = PyStr ''2025-12-01T09:30:00''\<rparr> \<and>
   persisted (fst (snd (perform (Update (PyInt 1) (PyStr ''buy bread'')) two_tasks)))
     (snd (snd (perform (Update (PyInt 1) (PyStr ''buy bread'')) two_tasks))) \<and>
   snd (snd (perform (Update (PyInt 1) (PyStr ''buy bread'')) two_tasks)) ''tasks.json'' =
     Some (Document (PyDict
        [(''1'', PyDict [(''id'', PyInt 1), (''description'', PyStr ''buy bread''),
                        (''status'', PyStr ''todo''),
                        (''created_at'', PyStr ''2025-12-01T09:30:00'')]),
         (''2'', PyDict [(''id'', PyInt 2), (''description'', PyStr ''write report''),
                        (''status'', PyStr ''todo''),
                        (''created_at'', PyStr ''2025-12-01T09:30:00'')])])) \<and>
   fst (perform (MarkDone (PyInt 2)) two_tasks) = Flag True \<and>
   persisted (fst (snd (perform (MarkDone (PyInt 2)) two_tasks)))
     (snd (snd (perform (MarkDone (PyInt 2)) two_tasks))) \<and>
   snd (snd (perform (MarkDone (PyInt 2)) two_tasks)) ''tasks.json'' =
     Some (Document (PyDict
        [(''1'', PyDict [(''id'', PyInt 1), (''description'', PyStr ''buy milk''),
                        (''status'', PyStr ''todo''),
                        (''created_at'', PyStr ''2025-12-01T09:30:00'')]),
         (''2'', PyDict [(''id'', PyInt 2), (''description'', PyStr ''write report''),
                        (''status'', PyStr ''done''),
                        (''created_at'', PyStr ''2025-12-01T09:30:00'')])])) \<and>
   fst (perform (Delete (PyInt 1)) two_tasks) = Flag True \<and>
   get_task (PyInt 1) (fst (snd (perform (Delete (PyInt 1)) two_tasks))) = None \<and>
   persisted (fst (snd (perform (Delete (PyInt 1)) two_tasks)))
     (snd (snd (perform (Delete (PyInt 1)) two_tasks))) \<and>
   snd (snd (perform (Delete (PyInt 1)) two_tasks)) ''tasks.json'' =
     Some (Document (PyDict
        [(''2'', PyDict [(''id'', PyInt 2), (''description'', PyStr ''write report''),
                        (''status'', PyStr ''todo''),
                        (''created_at'', PyStr ''2025-12-01T09:30:00'')])])) \<and>
   is_read ListAll \<and> snd (perform ListAll two_tasks) = two_tasks"
proof -
  let ?x = "\<lparr>id_of = PyInt 1, description = PyStr ''buy milk'', status = Member TODO,
           created_at = PyStr ''2025-12-01T09:30:00''\<rparr>"
  let ?u = "perform (Update (PyInt 1) (PyStr ''buy bread'')) two_tasks"
  let ?m = "perform (MarkDone (PyInt 2)) two_tasks"
  let ?d = "perform (Delete (PyInt 1)) two_tasks"
  let ?q = "perform ListAll two_tasks"
  have m: "members (tasks (fst two_tasks))" by (simp add: two_tasks_eq members_def)
  have g1: "get_task (PyInt 1) (fst two_tasks) = Some ?x"
    by (simp add: two_tasks_eq get_task_def py_str_def str_1)
  have g2: "get_task (PyInt 2) (fst two_tasks) =
     Some \<lparr>id_of = PyInt 2, description = PyStr ''write report'', status = Member TODO,
           created_at = PyStr ''2025-12-01T09:30:00''\<rparr>"
    by (simp add: two_tasks_eq get_task_def py_str_def str_1 str_2)
  have eu: "perform (Update (PyInt 1) (PyStr ''buy bread'')) (fst two_tasks, snd two_tasks)
            = (fst ?u, fst (snd ?u), snd (snd ?u))" by simp
  have em: "perform (MarkDone (PyInt 2)) (fst two_tasks, snd two_tasks)
            = (fst ?m, fst (snd ?m), snd (snd ?m))" by simp
  have ed: "perform (Delete (PyInt 1)) (fst two_tasks, snd two_tasks)
            = (fst ?d, fst (snd ?d), snd (snd ?d))" by simp
  have eq: "perform ListAll (fst two_tasks, snd two_tasks)
            = (fst ?q, fst (snd ?q), snd (snd ?q))" by simp
  note U = mutations_persist_reads_keep [OF eu]
  note M = mutations_persist_reads_keep [OF em]
  note D = mutations_persist_reads_keep [OF ed]
  note Q = mutations_persist_reads_keep [OF eq]
  have u1: "fst ?u = Flag True \<and> get_task (PyInt 1) (fst (snd ?u)) =
              Some (update_description (PyStr ''buy bread'') ?x)"
    using U m g1 by blast
  then have u2: "persisted (fst (snd ?u)) (snd (snd ?u))" using U by simp
  have m1: "fst ?m = Flag True" using M m g2 by blast
  then have m2: "persisted (fst (snd ?m)) (snd (snd ?m))" using M by simp
  have d1: "fst ?d = Flag True \<and> get_task (PyInt 1) (fst (snd ?d)) = None"
    using D m g1 by blast
  then have d2: "persisted (fst (snd ?d)) (snd (snd ?d))" using D by simp
  have "fst (snd ?q) = fst two_tasks \<and> snd (snd ?q) = snd two_tasks" using Q by simp
  then have q: "snd ?q = two_tasks" by (simp add: prod_eq_iff)
  have uf: "?u = perform (Update (PyInt 1) (PyStr ''buy bread'')) (fst two_tasks, snd two_tasks)"
    by simp
  have mf: "?m = perform (MarkDone (PyInt 2)) (fst two_tasks, snd two_tasks)" by simp
  have df: "?d = perform (Delete (PyInt 1)) (fst two_tasks, snd two_tasks)" by simp
  have u3: "snd (snd ?u) ''tasks.json'' =
     Some (Document (PyDict
        [(''1'', PyDict [(''id'', PyInt 1), (''description'', PyStr ''buy bread''),
                        (''status'', PyStr ''todo''),
                        (''created_at'', PyStr ''2025-12-01T09:30:00'')]),
         (''2'', PyDict [(''id'', PyInt 2), (''description'', PyStr ''write report''),
                        (''status'', PyStr ''todo''),
                        (''created_at'', PyStr ''2025-12-01T09:30:00'')])]))"
    unfolding uf update_two_tasks by simp
  have m3: "snd (snd ?m) ''tasks.json'' =
     Some (Document (PyDict
        [(''1'', PyDict [(''id'', PyInt 1), (''description'', PyStr ''buy milk''),
                        (''status'', PyStr ''todo''),
                        (''created_at'', PyStr ''2025-12-01T09:30:00'')]),
         (''2'', PyDict [(''id'', PyInt 2), (''description'', PyStr ''write report''),
                        (''status'', PyStr ''done''),
                        (''created_at'', PyStr ''2025-12-01T09:30:00'')])]))"
    unfolding mf mark_done_two_tasks by simp
  have d3: "snd (snd ?d) ''tasks.json'' =
     Some (Document (PyDict
        [(''2'', PyDict [(''id'', PyInt 2), (''description'', PyStr ''write report''),
                        (''status'', PyStr ''todo''),
                        (''created_at'', PyStr ''2025-12-01T09:30:00'')])]))"
    unfolding df delete_two_tasks by simp
  have u4: "get_task (PyInt 1) (fst (snd ?u)) =
     Some \<lparr>id_of = PyInt 1, description = PyStr ''buy bread'', status = Member TODO,
           created_at = PyStr ''2025-12-01T09:30:00''\<rparr>"
    using u1 by (simp add: update_description_def)
  have r: "is_read ListAll" by simp
  show ?thesis using m g1 u1 u4 u2 u3 m1 m2 m3 d1 d2 d3 r q by blast
qed

section \<open>Loading a status that is not recognized\<close>

text \<open>
  C3. For every backing file that parses as a mapping and has some entry whose status is
  a string other than \<^verbatim>\<open>"todo"\<close>, \<^verbatim>\<open>"in-progress"\<close> and \<^verbatim>\<open>"done"\<close>,
  \<^verbatim>\<open>load_tasks\<close> raises an exception, on whatever store it is called, and so does
  the constructor of the store, which calls it. The entry itself never becomes a task,
  with status \<open>TODO\<close> or any other: building a task from it raises.
\<close>

theorem bad_status_fails_load:
  assumes "fs (filename t) = Some (Document (PyDict entries))"
    and "(k, PyDict items) \<in> set entries"
    and "map_of items ''status'' = Some (PyStr s)"
    and "s \<notin> {''todo'', ''in-progress'', ''done''}"
  shows "(\<exists>e. fst (load_tasks clock t fs) = Inl e) \<and>
         (\<exists>e. TaskTracker_init (filename t) clock fs = Inl e) \<and>
         (\<exists>e. load_entry now (PyDict items) = Inl e)"
proof -
  have bad: "\<exists>e. load_entry now (PyDict items) = Inl e" for now
    using assms(3,4) by (rule load_entry_bad)
  have l: "\<exists>e. fst (load_entries clock 0 entries ts) = Some e" for ts
    using assms(2) bad by (rule load_entries_bad)
  have 1: "\<exists>e. fst (load_tasks clock t' fs) = Inl e" if "filename t' = filename t" for t'
  proof -
    obtain e where "fst (load_entries clock 0 entries (tasks t')) = Some e"
      using l [of "tasks t'"] by blast
    then show ?thesis
      using assms(1) that by (auto simp: load_tasks_def split: prod.splits)
  qed
  have "\<exists>e. fst (load_tasks clock \<lparr>filename = filename t, tasks = []\<rparr> fs) = Inl e"
    by (rule 1) simp
  then have 2: "\<exists>e. TaskTracker_init (filename t) clock fs = Inl e"
    by (auto simp: TaskTracker_init_def split: prod.splits sum.splits)
  show ?thesis using 1 [of t] 2 bad by simp
qed

text \<open>A file of two entries, the second with the status \<^verbatim>\<open>"finished"\<close>.\<close>

theorem bad_status_fails_load_witness:
  "bad_status_file ''tasks.json'' \<noteq> None \<and>
   fst (load_tasks (\<lambda>i. morning) \<lparr>filename = ''tasks.json'', tasks = []\<rparr> bad_status_file)
     = Inl ValueError \<and>
   TaskTracker_init ''tasks.json'' (\<lambda>i. morning) bad_status_file = Inl ValueError"
proof -
  let ?items = "[(''id'', PyInt 2), (''description'', PyStr ''b''),
                  (''status'', PyStr ''finished''),
                  (''created_at'', PyStr ''2025-12-01T09:30:00'')]"
  let ?entries = "[(''1'', PyDict [(''id'', PyInt 1), (''description'', PyStr ''a''),
                        (''status'', PyStr ''todo''),
                        (''created_at'', PyStr ''2025-12-01T09:30:00'')]),
                   (''2'', PyDict ?items)]"
  let ?t = "\<lparr>filename = ''tasks.json'', tasks = []\<rparr>"
  have a: "bad_status_file (filename ?t) = Some (Document (PyDict ?entries))"
    by (simp add: bad_status_file_def)
  have b: "(''2'', PyDict ?items) \<in> set ?entries" by simp
  have c: "map_of ?items ''status'' = Some (PyStr ''finished'')" by simp
  have d: "''finished'' \<notin> {''todo'', ''in-progress'', ''done''}" by simp
  have e1: "fst (load_tasks (\<lambda>i. morning) ?t bad_status_file) = Inl ValueError"
    by (simp add: load_tasks_def bad_status_file_def load_entry_def Task_init_def py_str_def str_1)
  have e2: "TaskTracker_init ''tasks.json'' (\<lambda>i. morning) bad_status_file = Inl ValueError"
    by (simp add: TaskTracker_init_def load_tasks_def bad_status_file_def load_entry_def
        Task_init_def py_str_def str_1)
  show ?thesis
    using bad_status_fails_load [where fs = bad_status_file and t = ?t and entries = ?entries
        and k = "''2''" and items = ?items and s = "''finished''" and clock = "\<lambda>i. morning"
        and now = morning, OF a b c d] a e1 e2
    by simp
qed

section \<open>The id that \<^verbatim>\<open>add_task\<close> assigns\<close>

text \<open>
  C2, as amended. In every state that a store reaches, the id that \<^verbatim>\<open>add_task\<close>
  assigns is an integer greater than the number of every held key and than every integer
  that is the id of a held task: it is 1 when the store is empty and otherwise one more
  than the largest of the numbers of the keys. So it differs from the id of every task
  held at that moment, and an id that was deleted earlier is assigned again only when the
  store, at the time of the call, holds no task with that id or a larger one. Nothing is
  remembered of deleted tasks.
\<close>

theorem add_id_above_held:
  assumes "reach (t, fs)" and "add_task now d t fs = (Inr x, t', fs')"
  shows "\<exists>n. id_of x = PyInt n \<and>
           (\<forall>(k, task) \<in> set (tasks t). \<exists>m. py_int k = Some m \<and> m < n) \<and>
           (tasks t = [] \<and> n = 1 \<or> (\<exists>(k, task) \<in> set (tasks t). py_int k = Some (n - 1))) \<and>
           id_of x \<notin> set (map (id_of \<circ> snd) (tasks t)) \<and>
           (\<forall>(k, task) \<in> set (tasks t). \<forall>m. id_of task = PyInt m \<longrightarrow> m < n)"
proof -
  obtain n where n: "get_next_id t = Inr n"
    using assms(2) by (cases "get_next_id t") (auto simp: add_task_def)
  have "x = new_task now n d" using add_task_assigns(2) [OF n assms(2)] by simp
  then have x: "id_of x = PyInt n" by (simp add: new_task_def)
  have b: "below t n" using n by (rule get_next_id_below)
  have l: "tasks t = [] \<and> n = 1 \<or> (\<exists>(k, task) \<in> set (tasks t). py_int k = Some (n - 1))"
  proof (cases "tasks t = []")
    case True
    then show ?thesis using n by (simp add: get_next_id_empty)
  next
    case False
    then show ?thesis using get_next_id_largest [OF n] by simp
  qed
  have inv: "store_inv t" using reach_store_inv [OF assms(1)] by simp
  have h: "m < n" if "(k, y) \<in> set (tasks t)" "id_of y = PyInt m" for k y m
  proof -
    have k: "k = str_int m"
      using inv that by (auto simp: store_inv_def held_ok_def list_all_iff py_str_int)
    have "\<exists>j. py_int k = Some j \<and> j < n" using b that(1) by (auto simp: below_iff)
    then obtain j where j: "py_int (str_int m) = Some j" "j < n" using k by auto
    then show ?thesis using py_int_str_int_Some [OF j(1)] by simp
  qed
  have "id_of x \<notin> set (map (id_of \<circ> snd) (tasks t))"
  proof
    assume "id_of x \<in> set (map (id_of \<circ> snd) (tasks t))"
    then obtain k y where y: "(k, y) \<in> set (tasks t)" "id_of y = PyInt n" using x by auto
    from h [OF this] show False by simp
  qed
  moreover have "\<forall>(k, task) \<in> set (tasks t). \<forall>m. id_of task = PyInt m \<longrightarrow> m < n"
    using h by blast
  ultimately show ?thesis using x b l by (auto simp: below_iff)
qed

text \<open>The store with the tasks 1 and 2 assigns the id 3.\<close>

theorem add_id_above_held_witness:
  "reach two_tasks \<and>
   fst (add_task morning (PyStr ''call'') (fst two_tasks) (snd two_tasks)) =
     Inr \<lparr>id_of = PyInt 3, description = PyStr ''call'', status = Member TODO,
          created_at = PyStr ''2025-12-01T09:30:00''\<rparr> \<and>
   map fst (tasks (fst two_tasks)) = [''1'', ''2''] \<and>
   PyInt 3 \<notin> set (map (id_of \<circ> snd) (tasks (fst two_tasks)))"
proof -
  let ?p = "add_task morning (PyStr ''call'') (fst two_tasks) (snd two_tasks)"
  let ?x = "\<lparr>id_of = PyInt 3, description = PyStr ''call'', status = Member TODO,
          created_at = PyStr ''2025-12-01T09:30:00''\<rparr>"
  have "reach two_tasks"
    unfolding two_tasks_def by (rule reach_run [OF reach_no_tasks])
  then have r: "reach (fst two_tasks, snd two_tasks)" by simp
  have e: "?p = (Inr ?x, fst (snd ?p), snd (snd ?p))"
    using third_add by (simp add: prod_eq_iff)
  have k: "map fst (tasks (fst two_tasks)) = [''1'', ''2'']" by (simp add: two_tasks_eq)
  show ?thesis
    using r third_add k add_id_above_held [OF r e] by simp
qed

text \<open>
  The claim as stated fails: on a store without tasks, after the tasks 1 and 2 are added
  and the task 2, the highest-numbered one, is deleted, the next \<^verbatim>\<open>add_task\<close>
  assigns the id 2 again.
\<close>

theorem id_reused_counterexample:
  "fst (run [Add morning (PyStr ''a''), Add morning (PyStr ''b''), Delete (PyInt 2),
            Add morning (PyStr ''c'')] no_tasks) =
     [Added \<lparr>id_of = PyInt 1, description = PyStr ''a'', status = Member TODO,
             created_at = PyStr ''2025-12-01T09:30:00''\<rparr>,
      Added \<lparr>id_of = PyInt 2, description = PyStr ''b'', status = Member TODO,
             created_at = PyStr ''2025-12-01T09:30:00''\<rparr>,
      Flag True,
      Added \<lparr>id_of = PyInt 2, description = PyStr ''c'', status = Member TODO,
             created_at = PyStr ''2025-12-01T09:30:00''\<rparr>]"
  by (simp add: no_tasks_def add_task_def get_next_id_def Task_init_def iso_morning py_str_def
      str_1 str_2 int_1 save_and_return_def save_tasks_def to_dict_def reply_of_def
      delete_task_def)

section \<open>Runs of \<^verbatim>\<open>add_task\<close>\<close>

text \<open>
  C7. For every run that consists of calls of \<^verbatim>\<open>add_task\<close> only, from any store and
  any file system: the ids of the tasks that the calls return are integers and strictly
  increasing in the order of the calls, hence mutually distinct; and every returned task
  has the description supplied to its call and the status \<open>TODO\<close>, and
  \<^verbatim>\<open>get_task\<close> with its id finds it in the store at the end of the run. A call
  returns no task when a key of the store does not read as an integer or a status is no
  member of \<open>TaskStatus\<close>. Every call of the run returns a task when the statuses of
  the store are all members of \<open>TaskStatus\<close> and its keys all read as integers that,
  with the number of the calls added, stay below \<open>10 ^ int_max_str_digits\<close>: then
  no new id has more digits than \<^verbatim>\<open>str\<close> and \<^verbatim>\<open>int\<close> convert. A call that
  raises while saving has inserted its task all the same: the run appends tasks to the
  store, in strictly increasing order of their ids, and the returned tasks are among them.
\<close>

theorem adds_increasing_retrievable:
  assumes "list_all is_add cs" and "run cs (t, fs) = (rs, t', fs')"
  shows "sorted_wrt id_less (added rs) \<and> distinct (map id_of (added rs)) \<and>
         list_all2 (\<lambda>c r. \<forall>a. r = Added a \<longrightarrow>
            (\<exists>now. c = Add now (description a)) \<and> status a = Member TODO \<and>
            get_task (id_of a) t' = Some a) cs rs \<and>
         (members (tasks t) \<and> int (length cs) < 10 ^ int_max_str_digits \<and>
          below t (10 ^ int_max_str_digits - int (length cs))
          \<longrightarrow> length (added rs) = length cs) \<and>
         (\<exists>zs. tasks t' = tasks t @ zs \<and> sorted_wrt id_less (map snd zs) \<and>
               set (added rs) \<subseteq> snd ` set zs)"
proof -
  note l = run_adds [OF assms]
  have s: "sorted_wrt id_less (added rs)" using l by simp
  then have d: "distinct (map id_of (added rs))" by (rule id_less_distinct)
  have "list_all2 (\<lambda>c r. \<forall>a. r = Added a \<longrightarrow>
            (\<exists>now. c = Add now (description a)) \<and> status a = Member TODO \<and>
            get_task (id_of a) t' = Some a) cs rs"
    using l unfolding get_task_def by simp
  moreover have "\<exists>zs. tasks t' = tasks t @ zs \<and> sorted_wrt id_less (map snd zs) \<and>
               set (added rs) \<subseteq> snd ` set zs"
    using run_adds_appends [OF assms] by blast
  ultimately show ?thesis using s d run_adds_return [OF assms] by blast
qed

text \<open>Two calls on the empty store return the ids 1 and 2.\<close>

theorem adds_increasing_retrievable_witness:
  "list_all is_add [Add morning (PyStr ''buy milk''), Add morning (PyStr ''write report'')] \<and>
   members (tasks (fst no_tasks)) \<and>
   int (length [Add morning (PyStr ''buy milk''), Add morning (PyStr ''write report'')])
     < 10 ^ int_max_str_digits \<and>
   below (fst no_tasks) (10 ^ int_max_str_digits
     - int (length [Add morning (PyStr ''buy milk''), Add morning (PyStr ''write report'')])) \<and>
   length (added (fst (run [Add morning (PyStr ''buy milk''),
                            Add morning (PyStr ''write report'')] no_tasks))) = 2 \<and>
   map id_of (added (fst (run [Add morning (PyStr ''buy milk''),
                               Add morning (PyStr ''write report'')] no_tasks)))
     = [PyInt 1, PyInt 2] \<and>
   sorted_wrt id_less (added (fst (run [Add morning (PyStr ''buy milk''),
                                       Add morning (PyStr ''write report'')] no_tasks))) \<and>
   get_task (PyInt 2) (fst two_tasks) =
     Some \<lparr>id_of = PyInt 2, description = PyStr ''write report'', status = Member TODO,
           created_at = PyStr ''2025-12-01T09:30:00''\<rparr>"
proof -
  let ?cs = "[Add morning (PyStr ''buy milk''), Add morning (PyStr ''write report'')]"
  let ?R = "run ?cs no_tasks"
  have a: "list_all is_add ?cs" by simp
  have e: "run ?cs (fst no_tasks, snd no_tasks) = (fst ?R, fst (snd ?R), snd (snd ?R))"
    by simp
  have "int (length ?cs) = 2" by simp
  then have k: "int (length ?cs) < 10 ^ int_max_str_digits" using ten_le_limit by linarith
  have b: "below (fst no_tasks) (10 ^ int_max_str_digits - int (length ?cs))"
    by (simp add: no_tasks_def below_def)
  have m: "members (tasks (fst no_tasks))" by (simp add: no_tasks_def members_def)
  have i: "map id_of (added (fst ?R)) = [PyInt 1, PyInt 2]" unfolding two_adds by simp
  have g: "get_task (PyInt 2) (fst two_tasks) =
     Some \<lparr>id_of = PyInt 2, description = PyStr ''write report'', status = Member TODO,
           created_at = PyStr ''2025-12-01T09:30:00''\<rparr>"
    by (simp add: two_tasks_eq get_task_def py_str_def str_2)
  note main = adds_increasing_retrievable [OF a e]
  have s: "sorted_wrt id_less (added (fst ?R))" using main by blast
  have "length (added (fst ?R)) = length ?cs" using main k b m by blast
  moreover have "length ?cs = 2" by simp
  ultimately have len: "length (added (fst ?R)) = 2" by (simp only:)
  show ?thesis using a k b m len i s g by blast
qed

section \<open>The listings\<close>

text \<open>
  C6, as amended. For every state that a store reaches in which the id of every held task
  is an integer, \<^verbatim>\<open>get_all_tasks\<close> returns the held tasks, each once, in strictly
  ascending order of their ids; the result is the same for every order in which the
  dictionary holds the same tasks; and \<^verbatim>\<open>get_tasks_by_status\<close>, with a member of
  \<open>TaskStatus\<close> or with the string value of a member, returns exactly the tasks of
  that listing whose status is this member, in the same order.
\<close>

theorem listings_sorted:
  assumes "reach (t, fs)" and "int_ids (tasks t)"
  shows "\<exists>xs. get_all_tasks t = Inr xs \<and> set xs = snd ` set (tasks t) \<and>
           length xs = length (tasks t) \<and> sorted_wrt id_less xs \<and>
           (\<forall>ts. set ts = set (tasks t) \<and> distinct ts \<longrightarrow>
                 get_all_tasks (t\<lparr>tasks := ts\<rparr>) = Inr xs) \<and>
           (\<forall>m. get_tasks_by_status (Member m) t
                  = Inr (filter (\<lambda>task. status task = Member m) xs) \<and>
                get_tasks_by_status (Plain (PyStr (status_value m))) t
                  = Inr (filter (\<lambda>task. status task = Member m) xs))"
proof -
  let ?all = "map snd (tasks t)"
  let ?xs = "sort_key int_id ?all"
  have inv: "store_inv t" using reach_store_inv [OF assms(1)] by simp
  have ints: "list_all (\<lambda>x. is_int (id_of x)) ?all"
    using assms(2) by (auto simp: int_ids_def list_all_iff)
  have d: "distinct ?all" and inj: "inj_on int_id (set ?all)"
    using int_ids_distinct [OF inv assms(2)] by simp_all
  have 1: "get_all_tasks t = Inr ?xs" using ints by (simp add: get_all_tasks_def py_sorted_ints)
  have "sorted (map int_id ?xs)" by simp
  moreover have "distinct (map int_id ?xs)" using d inj by (simp add: distinct_map)
  ultimately have "sorted_wrt (<) (map int_id ?xs)" by (simp add: strict_sorted_iff)
  moreover have "list_all (\<lambda>x. is_int (id_of x)) ?xs" using ints by (simp add: list_all_iff)
  ultimately have 2: "sorted_wrt id_less ?xs" by (intro sorted_wrt_id_less)
  have 3: "get_all_tasks (t\<lparr>tasks := ts\<rparr>) = Inr ?xs"
    if "set ts = set (tasks t) \<and> distinct ts" for ts
  proof -
    let ?ys = "map snd ts"
    have s: "set ?ys = set ?all" using that by simp
    have "inj_on snd (set (tasks t))"
      using d by (simp add: distinct_map)
    then have dy: "distinct ?ys" using that by (simp add: distinct_map)
    have "list_all (\<lambda>x. is_int (id_of x)) ?ys" using ints s by (simp add: list_all_iff)
    then have "get_all_tasks (t\<lparr>tasks := ts\<rparr>) = Inr (sort_key int_id ?ys)"
      by (simp add: get_all_tasks_def py_sorted_ints)
    moreover have "sort_key int_id ?ys = ?xs" using inj d dy s by (rule sort_key_unique)
    ultimately show ?thesis by simp
  qed
  have 4: "get_tasks_by_status (Member m) t = Inr (filter (\<lambda>task. status task = Member m) ?xs)
         \<and> get_tasks_by_status (Plain (PyStr (status_value m))) t
             = Inr (filter (\<lambda>task. status task = Member m) ?xs)" for m
  proof -
    let ?P = "\<lambda>task. status task = Member m"
    have "list_all (\<lambda>x. is_int (id_of x)) (filter ?P ?all)"
      using ints by (auto simp: list_all_iff)
    then have "py_sorted id_of (filter ?P ?all) = Inr (sort_key int_id (filter ?P ?all))"
      by (rule py_sorted_ints)
    then have "py_sorted id_of (filter ?P ?all) = Inr (filter ?P ?xs)"
      by (simp add: filter_sort)
    then show ?thesis
      by (cases m) (simp_all add: get_tasks_by_status_def status_eq_Member)
  qed
  show ?thesis using 1 2 3 4 by (intro exI [of _ ?xs]) simp
qed

text \<open>
  A store that has loaded the tasks 2, 1 and 3 in this order lists them as 1, 2, 3, and
  the done ones as 2, 3.
\<close>

theorem listings_sorted_witness:
  "reach unordered_store \<and> int_ids (tasks (fst unordered_store)) \<and>
   map fst (tasks (fst unordered_store)) = [''2'', ''1'', ''3''] \<and>
   get_all_tasks (fst unordered_store) =
     Inr [\<lparr>id_of = PyInt 1, description = PyStr ''a'', status = Member TODO,
            created_at = PyStr ''2025-12-01T09:30:00''\<rparr>,
          \<lparr>id_of = PyInt 2, description = PyStr ''b'', status = Member DONE,
            created_at = PyStr ''2025-12-01T09:30:00''\<rparr>,
          \<lparr>id_of = PyInt 3, description = PyStr ''c'', status = Member DONE,
            created_at = PyStr ''2025-12-01T09:30:00''\<rparr>] \<and>
   get_tasks_by_status (Plain (PyStr ''done'')) (fst unordered_store) =
     Inr [\<lparr>id_of = PyInt 2, description = PyStr ''b'', status = Member DONE,
            created_at = PyStr ''2025-12-01T09:30:00''\<rparr>,
          \<lparr>id_of = PyInt 3, description = PyStr ''c'', status = Member DONE,
            created_at = PyStr ''2025-12-01T09:30:00''\<rparr>]"
proof -
  have "reach unordered_store"
    unfolding unordered_store_def by (intro reach.call reach.fresh)
  then have r: "reach (fst unordered_store, snd unordered_store)" by simp
  have i: "int_ids (tasks (fst unordered_store))"
    by (simp add: unordered_store_eq int_ids_def)
  have k: "map fst (tasks (fst unordered_store)) = [''2'', ''1'', ''3'']"
    by (simp add: unordered_store_eq)
  from listings_sorted [OF r i] obtain xs
    where a: "get_all_tasks (fst unordered_store) = Inr xs"
      and d: "get_tasks_by_status (Plain (PyStr (status_value DONE))) (fst unordered_store)
              = Inr (filter (\<lambda>task. status task = Member DONE) xs)"
    by blast
  have e: "get_all_tasks (fst unordered_store) =
     Inr [\<lparr>id_of = PyInt 1, description = PyStr ''a'', status = Member TODO,
            created_at = PyStr ''2025-12-01T09:30:00''\<rparr>,
          \<lparr>id_of = PyInt 2, description = PyStr ''b'', status = Member DONE,
            created_at = PyStr ''2025-12-01T09:30:00''\<rparr>,
          \<lparr>id_of = PyInt 3, description = PyStr ''c'', status = Member DONE,
            created_at = PyStr ''2025-12-01T09:30:00''\<rparr>]"
    by (simp add: unordered_store_eq get_all_tasks_def py_sorted_def)
  show ?thesis using r i k a d e by auto
qed

text \<open>
  The claim as stated fails for a store that has loaded ids that are strings: the tasks
  held under the keys 9 and 10 are listed with the id \<^verbatim>\<open>"10"\<close> before the id
  \<^verbatim>\<open>"9"\<close>, since \<^verbatim>\<open>sorted\<close> compares the ids as strings.
\<close>

theorem listings_sorted_counterexample:
  "reach string_ids_store \<and>
   map fst (tasks (fst string_ids_store)) = [''9'', ''10''] \<and>
   py_int ''9'' = Some 9 \<and> py_int ''10'' = Some 10 \<and>
   get_all_tasks (fst string_ids_store) =
     Inr [\<lparr>id_of = PyStr ''10'', description = PyStr ''b'', status = Member TODO,
            created_at = PyStr ''2025-12-01T09:30:00''\<rparr>,
          \<lparr>id_of = PyStr ''9'', description = PyStr ''a'', status = Member TODO,
            created_at = PyStr ''2025-12-01T09:30:00''\<rparr>]"
proof -
  have "reach string_ids_store"
    unfolding string_ids_store_def by (intro reach.call reach.fresh)
  moreover have "map fst (tasks (fst string_ids_store)) = [''9'', ''10'']"
    by (simp add: string_ids_store_eq)
  moreover have "py_int ''9'' = Some 9"
    using py_int_str_int [of 9]
    by (simp add: str_int_def dec_nat.simps digit_char_def int_max_str_digits_def)
  moreover have "py_int ''10'' = Some 10"
    using py_int_str_int [of 10]
    by (simp add: str_int_def dec_nat.simps digit_char_def int_max_str_digits_def)
  moreover have "get_all_tasks (fst string_ids_store) =
     Inr [\<lparr>id_of = PyStr ''10'', description = PyStr ''b'', status = Member TODO,
            created_at = PyStr ''2025-12-01T09:30:00''\<rparr>,
          \<lparr>id_of = PyStr ''9'', description = PyStr ''a'', status = Member TODO,
            created_at = PyStr ''2025-12-01T09:30:00''\<rparr>]"
    by (auto simp: string_ids_store_eq get_all_tasks_def py_sorted_def)
  ultimately show ?thesis by blast
qed

section \<open>The record of a task\<close>

text \<open>
  C8, as amended. Every record that serializing a task produces has exactly four fields,
  in this order: \<^verbatim>\<open>id\<close>, \<^verbatim>\<open>description\<close>, \<^verbatim>\<open>status\<close> and the creation time,
  which \<^verbatim>\<open>Task.to_dict\<close> of testfile.py spells \<^verbatim>\<open>created_at\<close> and
  \<^verbatim>\<open>Task.task_dict\<close> of TaskTracker.py spells \<^verbatim>\<open>created\<close>. The status is the
  string value of a member of \<open>TaskStatus\<close>, one of \<^verbatim>\<open>"todo"\<close>,
  \<^verbatim>\<open>"in-progress"\<close>, \<^verbatim>\<open>"done"\<close>; the other three fields hold the values of the
  task as they are, of whatever type. The record of a task that \<^verbatim>\<open>add_task\<close> returns
  has an integer as its id, the description supplied, the status \<^verbatim>\<open>"todo"\<close> and the
  ISO format of the clock's reading as its creation time. In testfile.py the loop of
  \<^verbatim>\<open>load_tasks\<close> reads the four spellings that \<^verbatim>\<open>Task.to_dict\<close> writes, and
  rebuilds the task from its record.
\<close>

theorem serialized_record:
  "(to_dict task = Inr r \<longrightarrow>
      map fst r = [''id'', ''description'', ''status'', ''created_at''] \<and>
      map_of r ''id'' = Some (id_of task) \<and>
      map_of r ''description'' = Some (description task) \<and>
      map_of r ''created_at'' = Some (created_at task) \<and>
      (\<exists>m. status task = Member m \<and> map_of r ''status'' = Some (PyStr (status_value m)) \<and>
           status_value m \<in> {''todo'', ''in-progress'', ''done''}) \<and>
      (py_truthy (created_at task) \<longrightarrow> load_entry now (PyDict r) = Inr task)) \<and>
   map fst (task_dict old) = [''id'', ''description'', ''status'', ''created''] \<and>
   map_of (task_dict old) ''id'' = Some (id_tt old) \<and>
   map_of (task_dict old) ''description'' = Some (taskDesc old) \<and>
   map_of (task_dict old) ''created'' = Some (createdOn old) \<and>
   map_of (task_dict old) ''status'' = Some (PyStr (status_value (status_tt old))) \<and>
   status_value (status_tt old) \<in> {''todo'', ''in-progress'', ''done''} \<and>
   (add_task now d t fs = (Inr x, t', fs') \<longrightarrow>
      (\<exists>n. to_dict x = Inr [(''id'', PyInt n), (''description'', d), (''status'', PyStr ''todo''),
                              (''created_at'', PyStr (isoformat now))]))"
proof -
  have 1: "map fst r = [''id'', ''description'', ''status'', ''created_at''] \<and>
      map_of r ''id'' = Some (id_of task) \<and>
      map_of r ''description'' = Some (description task) \<and>
      map_of r ''created_at'' = Some (created_at task) \<and>
      (\<exists>m. status task = Member m \<and> map_of r ''status'' = Some (PyStr (status_value m)) \<and>
           status_value m \<in> {''todo'', ''in-progress'', ''done''}) \<and>
      (py_truthy (created_at task) \<longrightarrow> load_entry now (PyDict r) = Inr task)"
    if a: "to_dict task = Inr r"
  proof -
    from to_dict_Inr [OF a] obtain m where m: "status task = Member m"
      and r: "r = [(''id'', id_of task), (''description'', description task),
                (''status'', PyStr (status_value m)), (''created_at'', created_at task)]"
      by blast
    have "status_value m \<in> {''todo'', ''in-progress'', ''done''}" by (rule status_value_cases)
    then show ?thesis using m r load_entry_to_dict [OF a, of now] by simp
  qed
  have 2: "status_value (status_tt old) \<in> {''todo'', ''in-progress'', ''done''}"
    by (rule status_value_cases)
  have 3: "\<exists>n. to_dict x = Inr [(''id'', PyInt n), (''description'', d), (''status'', PyStr ''todo''),
                              (''created_at'', PyStr (isoformat now))]"
    if a: "add_task now d t fs = (Inr x, t', fs')"
  proof -
    obtain n where n: "get_next_id t = Inr n"
      using a by (cases "get_next_id t") (auto simp: add_task_def)
    have "x = new_task now n d" using add_task_assigns(2) [OF n a] by simp
    then have "to_dict x = Inr [(''id'', PyInt n), (''description'', d), (''status'', PyStr ''todo''),
                              (''created_at'', PyStr (isoformat now))]"
      by (simp add: new_task_def to_dict_def)
    then show ?thesis by blast
  qed
  have A: "to_dict task = Inr r \<longrightarrow>
      map fst r = [''id'', ''description'', ''status'', ''created_at''] \<and>
      map_of r ''id'' = Some (id_of task) \<and>
      map_of r ''description'' = Some (description task) \<and>
      map_of r ''created_at'' = Some (created_at task) \<and>
      (\<exists>m. status task = Member m \<and> map_of r ''status'' = Some (PyStr (status_value m)) \<and>
           status_value m \<in> {''todo'', ''in-progress'', ''done''}) \<and>
      (py_truthy (created_at task) \<longrightarrow> load_entry now (PyDict r) = Inr task)"
    using 1 by blast
  have B: "map fst (task_dict old) = [''id'', ''description'', ''status'', ''created''] \<and>
   map_of (task_dict old) ''id'' = Some (id_tt old) \<and>
   map_of (task_dict old) ''description'' = Some (taskDesc old) \<and>
   map_of (task_dict old) ''created'' = Some (createdOn old) \<and>
   map_of (task_dict old) ''status'' = Some (PyStr (status_value (status_tt old)))"
    by (simp add: task_dict_def)
  have D: "add_task now d t fs = (Inr x, t', fs') \<longrightarrow>
      (\<exists>n. to_dict x = Inr [(''id'', PyInt n), (''description'', d), (''status'', PyStr ''todo''),
                              (''created_at'', PyStr (isoformat now))])"
    using 3 by blast
  show ?thesis using A B 2 D by blast
qed

text \<open>
  A task of testfile.py, its record and the task read back from it, and the record of
  the task that \<^verbatim>\<open>add_task\<close> makes in the store of two tasks.
\<close>

theorem serialized_record_witness:
  "to_dict \<lparr>id_of = PyInt 1, description = PyStr ''buy milk'', status = Member TODO,
            created_at = PyStr ''2025-12-01T09:30:00''\<rparr>
     = Inr [(''id'', PyInt 1), (''description'', PyStr ''buy milk''),
            (''status'', PyStr ''todo''), (''created_at'', PyStr ''2025-12-01T09:30:00'')] \<and>
   load_entry morning (PyDict [(''id'', PyInt 1), (''description'', PyStr ''buy milk''),
            (''status'', PyStr ''todo''), (''created_at'', PyStr ''2025-12-01T09:30:00'')])
     = Inr \<lparr>id_of = PyInt 1, description = PyStr ''buy milk'', status = Member TODO,
            created_at = PyStr ''2025-12-01T09:30:00''\<rparr> \<and>
   fst (add_task morning (PyStr ''call'') (fst two_tasks) (snd two_tasks)) =
     Inr \<lparr>id_of = PyInt 3, description = PyStr ''call'', status = Member TODO,
          created_at = PyStr ''2025-12-01T09:30:00''\<rparr> \<and>
   (\<exists>n. to_dict \<lparr>id_of = PyInt 3, description = PyStr ''call'', status = Member TODO,
          created_at = PyStr ''2025-12-01T09:30:00''\<rparr>
       = Inr [(''id'', PyInt n), (''description'', PyStr ''call''), (''status'', PyStr ''todo''),
              (''created_at'', PyStr (isoformat morning))]) \<and>
   isoformat morning = ''2025-12-01T09:30:00''"
proof -
  let ?task = "\<lparr>id_of = PyInt 1, description = PyStr ''buy milk'', status = Member TODO,
            created_at = PyStr ''2025-12-01T09:30:00''\<rparr>"
  let ?r = "[(''id'', PyInt 1), (''description'', PyStr ''buy milk''),
            (''status'', PyStr ''todo''), (''created_at'', PyStr ''2025-12-01T09:30:00'')]"
  let ?p = "add_task morning (PyStr ''call'') (fst two_tasks) (snd two_tasks)"
  let ?x = "\<lparr>id_of = PyInt 3, description = PyStr ''call'', status = Member TODO,
          created_at = PyStr ''2025-12-01T09:30:00''\<rparr>"
  have a: "to_dict ?task = Inr ?r" by (simp add: to_dict_def)
  have b: "py_truthy (created_at ?task)" by simp
  have e: "?p = (Inr ?x, fst (snd ?p), snd (snd ?p))"
    using third_add by (simp add: prod_eq_iff)
  note main = serialized_record [where task = ?task and r = ?r and now = morning
      and d = "PyStr ''call''" and t = "fst two_tasks" and fs = "snd two_tasks" and x = ?x
      and t' = "fst (snd ?p)" and fs' = "snd (snd ?p)"]
  have 1: "load_entry morning (PyDict ?r) = Inr ?task" using main a b by blast
  have 2: "\<exists>n. to_dict ?x
       = Inr [(''id'', PyInt n), (''description'', PyStr ''call''), (''status'', PyStr ''todo''),
              (''created_at'', PyStr (isoformat morning))]"
    using main e by blast
  show ?thesis using a 1 2 third_add iso_morning by blast
qed

text \<open>
  The claim as stated fails. The store of testfile.py that has loaded a record with a
  string as its id, a number as its description and \<^verbatim>\<open>true\<close> as its creation time
  serializes the task with these values: the id is no number, and the description and the
  creation time are no strings. And the record that \<^verbatim>\<open>Task.task_dict\<close> of
  TaskTracker.py produces has the field \<^verbatim>\<open>created\<close>, which is neither
  \<^verbatim>\<open>createdAt\<close> nor \<^verbatim>\<open>created_at\<close>.
\<close>

theorem serialized_record_counterexample:
  "reach untyped_store \<and>
   map (to_dict \<circ> snd) (tasks (fst untyped_store)) =
     [Inr [(''id'', PyStr ''nine''), (''description'', PyInt 7), (''status'', PyStr ''done''),
           (''created_at'', PyBool True)]] \<and>
   \<not> is_int (PyStr ''nine'') \<and> \<not> is_string (PyInt 7) \<and> \<not> is_string (PyBool True) \<and>
   map fst (task_dict make_program) = [''id'', ''description'', ''status'', ''created''] \<and>
   ''created'' \<noteq> ''createdAt'' \<and> ''created'' \<noteq> ''created_at''"
proof -
  have "reach untyped_store"
    unfolding untyped_store_def by (intro reach.call reach.fresh)
  then show ?thesis by (simp add: untyped_store_eq to_dict_def task_dict_def)
qed

section \<open>The id argument: integer or string\<close>


end
